theory Spec2Isabelle
  imports Complex_Main "HOL-Library.AList"
begin

section \<open>Strings and regular expressions\<close>

text \<open>
  The string methods and the \<^verbatim>\<open>re\<close> calls the source uses. A character is
  one of the 256 code points of Latin-1. On these, \<^verbatim>\<open>str.lower()\<close> maps the
  letters \<open>A\<close> to \<open>Z\<close> and the accented capitals \<open>0xC0\<close> to \<open>0xDE\<close>
  (without the multiplication sign \<open>0xD7\<close>) to their small letters;
  \<^verbatim>\<open>str.strip()\<close> and the class \<^verbatim>\<open>\s\<close> of a string pattern know the
  same white space: the controls \<open>0x09\<close> to \<open>0x0D\<close> and \<open>0x1C\<close> to
  \<open>0x1F\<close>, the blank, the next-line control \<open>0x85\<close> and the no-break space
  \<open>0xA0\<close>; \<^verbatim>\<open>\d\<close> knows the ten ASCII digits; and a pattern of ASCII
  letters searched with \<^verbatim>\<open>re.I\<close> matches these letters in either case and no
  other character.
\<close>

definition lower_class :: "char list" where
  "lower_class = ''abcdefghijklmnopqrstuvwxyz''"

definition upper_class :: "char list" where
  "upper_class = ''ABCDEFGHIJKLMNOPQRSTUVWXYZ''"

definition digit_class :: "char list" where
  "digit_class = ''0123456789''"

definition space_class :: "char list" where
  "space_class = [CHR 0x09, CHR 0x0A, CHR 0x0B, CHR 0x0C, CHR 0x0D,
                  CHR 0x1C, CHR 0x1D, CHR 0x1E, CHR 0x1F, CHR '' '',
                  CHR 0x85, CHR 0xA0]"

definition upper_accented :: "char list" where
  "upper_accented =
     [CHR 0xC0, CHR 0xC1, CHR 0xC2, CHR 0xC3, CHR 0xC4, CHR 0xC5, CHR 0xC6, CHR 0xC7,
      CHR 0xC8, CHR 0xC9, CHR 0xCA, CHR 0xCB, CHR 0xCC, CHR 0xCD, CHR 0xCE, CHR 0xCF,
      CHR 0xD0, CHR 0xD1, CHR 0xD2, CHR 0xD3, CHR 0xD4, CHR 0xD5, CHR 0xD6,
      CHR 0xD8, CHR 0xD9, CHR 0xDA, CHR 0xDB, CHR 0xDC, CHR 0xDD, CHR 0xDE]"

definition lower_accented :: "char list" where
  "lower_accented =
     [CHR 0xE0, CHR 0xE1, CHR 0xE2, CHR 0xE3, CHR 0xE4, CHR 0xE5, CHR 0xE6, CHR 0xE7,
      CHR 0xE8, CHR 0xE9, CHR 0xEA, CHR 0xEB, CHR 0xEC, CHR 0xED, CHR 0xEE, CHR 0xEF,
      CHR 0xF0, CHR 0xF1, CHR 0xF2, CHR 0xF3, CHR 0xF4, CHR 0xF5, CHR 0xF6,
      CHR 0xF8, CHR 0xF9, CHR 0xFA, CHR 0xFB, CHR 0xFC, CHR 0xFD, CHR 0xFE]"

text \<open>
  A capital and its small letter differ in one bit, of value 32, which is clear in the
  capital; a character in which it is set is no capital.
\<close>

fun lower_char :: "char \<Rightarrow> char" where
  "lower_char (Char b0 b1 b2 b3 b4 b5 b6 b7) =
     (if b5 then Char b0 b1 b2 b3 b4 b5 b6 b7
      else if Char b0 b1 b2 b3 b4 b5 b6 b7 \<in> set (upper_class @ upper_accented)
           then Char b0 b1 b2 b3 b4 True b6 b7
      else Char b0 b1 b2 b3 b4 b5 b6 b7)"

definition lower :: "string \<Rightarrow> string" where
  "lower s = map lower_char s"

text \<open>The characters \<^verbatim>\<open>str.strip()\<close> removes and \<^verbatim>\<open>\s\<close> matches.\<close>

definition is_space :: "char \<Rightarrow> bool" where
  "is_space c = (c \<in> set space_class)"

definition lstrip :: "(char \<Rightarrow> bool) \<Rightarrow> string \<Rightarrow> string" where
  "lstrip P s = dropWhile P s"

definition rstrip :: "(char \<Rightarrow> bool) \<Rightarrow> string \<Rightarrow> string" where
  "rstrip P s = rev (dropWhile P (rev s))"

definition strip :: "string \<Rightarrow> string" where
  "strip s = rstrip is_space (lstrip is_space s)"

text \<open>\<^verbatim>\<open>s.startswith(p)\<close> and \<^verbatim>\<open>sub in s\<close>.\<close>

fun starts_with :: "string \<Rightarrow> string \<Rightarrow> bool" where
  "starts_with s [] = True"
| "starts_with [] (p # ps) = False"
| "starts_with (c # cs) (p # ps) = (c = p \<and> starts_with cs ps)"

fun contains :: "string \<Rightarrow> string \<Rightarrow> bool" where
  "contains [] sub = (sub = [])"
| "contains (c # cs) sub = (starts_with (c # cs) sub \<or> contains cs sub)"

text \<open>
  \<^verbatim>\<open>s.split(sep)\<close> for a one-character separator, and \<^verbatim>\<open>re.split\<close> on a
  character class: \<open>split_where\<close> splits at every separator character,
  \<open>split_runs\<close> at every maximal run of them (a pattern \<^verbatim>\<open>[...]+\<close>). Both
  return at least one piece, and empty pieces at the ends are kept.
\<close>

fun split_where :: "(char \<Rightarrow> bool) \<Rightarrow> string \<Rightarrow> string list" where
  "split_where P [] = [[]]"
| "split_where P (c # cs) =
     (if P c then [] # split_where P cs
      else (case split_where P cs of [] \<Rightarrow> [[c]] | w # ws \<Rightarrow> (c # w) # ws))"

definition split_on :: "char \<Rightarrow> string \<Rightarrow> string list" where
  "split_on sep s = split_where (\<lambda>c. c = sep) s"

function split_runs :: "(char \<Rightarrow> bool) \<Rightarrow> string \<Rightarrow> string list" where
  "split_runs P [] = [[]]"
| "split_runs P (c # cs) =
     (if P c then [] # split_runs P (dropWhile P cs)
      else (case split_runs P cs of [] \<Rightarrow> [[c]] | w # ws \<Rightarrow> (c # w) # ws))"
  by pat_completeness auto
termination
  by (relation "measure (\<lambda>(P, s). length s)") (auto simp: less_Suc_eq_le length_dropWhile_le)

text \<open>\<^verbatim>\<open>sep.join(xs)\<close>.\<close>

fun join :: "string \<Rightarrow> string list \<Rightarrow> string" where
  "join sep [] = []"
| "join sep [x] = x"
| "join sep (x # y # ys) = x @ sep @ join sep (y # ys)"

text \<open>Decimal rendering of a number, as an f-string does it.\<close>

definition digit_char :: "nat \<Rightarrow> char" where
  "digit_char d = char_of (48 + d)"

fun string_of_nat :: "nat \<Rightarrow> string" where
  "string_of_nat n =
     (if n < 10 then [digit_char n] else string_of_nat (n div 10) @ [digit_char (n mod 10)])"

declare string_of_nat.simps [simp del]

text \<open>
  Regular expressions, matched by derivatives. \<open>Sym cs\<close> is a character of \<open>cs\<close>,
  \<open>NSym cs\<close> a character not in \<open>cs\<close>. \<open>rmatch r s\<close> holds when the whole of
  \<open>s\<close> is in the language of \<open>r\<close>. The patterns of the source have no
  back-references or look-around, so \<^verbatim>\<open>re.search(p, s)\<close> finds a match exactly
  when \<open>s\<close> is in the language of \<^verbatim>\<open>.*p.*\<close> with a dot that matches every
  character; a leading \<^verbatim>\<open>^\<close> drops the first \<^verbatim>\<open>.*\<close>, and a final
  \<^verbatim>\<open>$\<close> stands for the end of the string or a last newline before it.
\<close>

datatype rx = Zero | One | Sym "char list" | NSym "char list" | Alt rx rx | Seq rx rx | Star rx

fun nullable :: "rx \<Rightarrow> bool" where
  "nullable Zero = False"
| "nullable One = True"
| "nullable (Sym cs) = False"
| "nullable (NSym cs) = False"
| "nullable (Alt r s) = (nullable r \<or> nullable s)"
| "nullable (Seq r s) = (nullable r \<and> nullable s)"
| "nullable (Star r) = True"

fun ralt :: "rx \<Rightarrow> rx \<Rightarrow> rx" where
  "ralt Zero r = r"
| "ralt r Zero = r"
| "ralt r s = Alt r s"

fun rseq :: "rx \<Rightarrow> rx \<Rightarrow> rx" where
  "rseq Zero r = Zero"
| "rseq r Zero = Zero"
| "rseq One r = r"
| "rseq r s = Seq r s"

fun deriv :: "char \<Rightarrow> rx \<Rightarrow> rx" where
  "deriv c Zero = Zero"
| "deriv c One = Zero"
| "deriv c (Sym cs) = (if c \<in> set cs then One else Zero)"
| "deriv c (NSym cs) = (if c \<in> set cs then Zero else One)"
| "deriv c (Alt r s) = ralt (deriv c r) (deriv c s)"
| "deriv c (Seq r s) =
     (if nullable r then ralt (rseq (deriv c r) s) (deriv c s) else rseq (deriv c r) s)"
| "deriv c (Star r) = rseq (deriv c r) (Star r)"

fun rmatch :: "rx \<Rightarrow> string \<Rightarrow> bool" where
  "rmatch r [] = nullable r"
| "rmatch r (c # cs) = rmatch (deriv c r) cs"

fun lit :: "string \<Rightarrow> rx" where
  "lit [] = One"
| "lit [c] = Sym [c]"
| "lit (c # cs) = Seq (Sym [c]) (lit cs)"

fun seqs :: "rx list \<Rightarrow> rx" where
  "seqs [] = One"
| "seqs [r] = r"
| "seqs (r # rs) = Seq r (seqs rs)"

fun alts :: "rx list \<Rightarrow> rx" where
  "alts [] = Zero"
| "alts [r] = r"
| "alts (r # rs) = Alt r (alts rs)"

definition ropt :: "rx \<Rightarrow> rx" where
  "ropt r = Alt r One"

definition rplus :: "rx \<Rightarrow> rx" where
  "rplus r = Seq r (Star r)"

definition any_char :: rx where
  "any_char = NSym []"

definition dot :: rx where
  "dot = NSym [CHR 0x0A]"

definition dollar :: rx where
  "dollar = Alt One (Sym [CHR 0x0A])"

text \<open>
  \<^verbatim>\<open>re.search(p, s)\<close> for a pattern \<open>p\<close> without anchors, for \<^verbatim>\<open>p$\<close>,
  and for \<^verbatim>\<open>^p$\<close>.
\<close>

definition re_search :: "rx \<Rightarrow> string \<Rightarrow> bool" where
  "re_search p s = rmatch (seqs [Star any_char, p, Star any_char]) s"

definition re_search_end :: "rx \<Rightarrow> string \<Rightarrow> bool" where
  "re_search_end p s = rmatch (seqs [Star any_char, p, dollar]) s"

definition re_match_whole :: "rx \<Rightarrow> string \<Rightarrow> bool" where
  "re_match_whole p s = rmatch (Seq p dollar) s"

text \<open>\<^verbatim>\<open>re.search\<close> for a pattern \<^verbatim>\<open>p(?:/|$)\<close>.\<close>

definition re_search_slash_or_end :: "rx \<Rightarrow> string \<Rightarrow> bool" where
  "re_search_slash_or_end p s =
     rmatch (seqs [Star any_char, p, Alt (Seq (Sym ''/'') (Star any_char)) dollar]) s"

definition ends_with :: "string \<Rightarrow> string \<Rightarrow> bool" where
  "ends_with s suf = starts_with (rev s) (rev suf)"


section \<open>The document model\<close>

text \<open>
  Both source files work on a BeautifulSoup tree, which \<^verbatim>\<open>html.parser\<close>
  builds. A node is a string or a tag with a name, an attribute dictionary and children.
  A string is an instance of a class of strings: the plain \<^verbatim>\<open>NavigableString\<close>,
  or one of its subclasses for a comment, a doctype, a declaration, a processing
  instruction, a CDATA section, and for the text the parser finds directly in a
  \<^verbatim>\<open>script\<close>, \<^verbatim>\<open>style\<close>, \<^verbatim>\<open>template\<close>,
  \<^verbatim>\<open>rt\<close> or \<^verbatim>\<open>rp\<close> tag. An attribute value is a string, or a list of
  tokens for the multi-valued attributes (\<^verbatim>\<open>class\<close>, \<^verbatim>\<open>rel\<close>). The
  soup itself is the tag named \<^verbatim>\<open>[document]\<close>. The attribute dictionary is an
  association list, read with \<open>map_of\<close> and written with \<open>AList.update\<close>, which
  overwrites the value of a key that is present and appends a new key at the end, as a
  Python dict does. Strings are lists of characters, one \<open>char\<close> for each code
  point. The parser gives a list of tokens only for the multi-valued attributes, and a
  dictionary has each key once. The identifier attribute \<^verbatim>\<open>ali-zx9v8k2m4p\<close>
  is taken to hold a string wherever it is present, as \<^verbatim>\<open>_label_elements\<close>
  writes it (a list could not be put into the set of processed identifiers).
\<close>

datatype attr_val = Str string | Toks "string list"

type_synonym attrs = "(string \<times> attr_val) list"

datatype kind =
    NavigableString | CData | Comment | Declaration | Doctype | ProcessingInstruction
  | Script | Stylesheet | TemplateString | RubyTextString | RubyParenthesisString

datatype node = Text kind string | Element string attrs "node list"

fun name :: "node \<Rightarrow> string" where
  "name (Text k s) = []"
| "name (Element t a cs) = t"

fun attrs_of :: "node \<Rightarrow> attrs" where
  "attrs_of (Text k s) = []"
| "attrs_of (Element t a cs) = a"

fun children :: "node \<Rightarrow> node list" where
  "children (Text k s) = []"
| "children (Element t a cs) = cs"

text \<open>\<^verbatim>\<open>element.get(key)\<close>: the value, or \<open>None\<close>.\<close>

definition get :: "node \<Rightarrow> string \<Rightarrow> attr_val option" where
  "get e k = map_of (attrs_of e) k"

text \<open>Python truthiness of what \<^verbatim>\<open>get\<close> returns.\<close>

fun truthy :: "attr_val option \<Rightarrow> bool" where
  "truthy None = False"
| "truthy (Some (Str s)) = (s \<noteq> [])"
| "truthy (Some (Toks ts)) = (ts \<noteq> [])"

text \<open>
  \<open>elems n\<close> lists the tags of the subtree of \<open>n\<close> in document order, \<open>n\<close>
  itself first; \<^verbatim>\<open>element.find_all(True)\<close> lists the tags strictly below
  \<^verbatim>\<open>element\<close>.
\<close>

fun elems :: "node \<Rightarrow> node list" where
  "elems (Text k s) = []"
| "elems (Element t a cs) = Element t a cs # concat (map elems cs)"

definition find_all :: "node \<Rightarrow> node list" where
  "find_all e = concat (map elems (children e))"

text \<open>
  \<^verbatim>\<open>soup.find(...)\<close> is the first tag in document order that passes the
  filter. \<open>find_first\<close> returns it; \<open>apply_first\<close> replaces it, where it stands, by
  what \<open>f\<close> leaves of it (the source mutates the found tag in place; \<open>None\<close> stands
  for a tag that was decomposed).
\<close>

fun find_first :: "(node \<Rightarrow> bool) \<Rightarrow> node list \<Rightarrow> node option" where
  "find_first P [] = None"
| "find_first P (Text k s # cs) = find_first P cs"
| "find_first P (Element t a ds # cs) =
     (if P (Element t a ds) then Some (Element t a ds)
      else (case find_first P ds of Some e \<Rightarrow> Some e | None \<Rightarrow> find_first P cs))"

fun apply_first :: "(node \<Rightarrow> bool) \<Rightarrow> (node \<Rightarrow> node option) \<Rightarrow> node list \<Rightarrow> node list option" where
  "apply_first P f [] = None"
| "apply_first P f (Text k s # cs) = map_option ((#) (Text k s)) (apply_first P f cs)"
| "apply_first P f (Element t a ds # cs) =
     (if P (Element t a ds) then
        Some ((case f (Element t a ds) of None \<Rightarrow> [] | Some e \<Rightarrow> [e]) @ cs)
      else (case apply_first P f ds of
              Some ds' \<Rightarrow> Some (Element t a ds' # cs)
            | None \<Rightarrow> map_option ((#) (Element t a ds)) (apply_first P f cs)))"

definition id_attr :: string where
  "id_attr = ''ali-zx9v8k2m4p''"


section \<open>Tags with their place in the tree\<close>

text \<open>
  Several functions of the source walk from a tag to its parent and ancestors, or
  change one particular tag. A located tag is the tag, the name and attributes of each of
  its ancestors (the parent first, the soup last) and its path from the soup (the child
  indices). \<open>locs_below\<close> lists the tags strictly below a tag in document order, as
  \<^verbatim>\<open>find_all\<close> does, each with its place.
\<close>

type_synonym tag = "string \<times> attrs"

record loc =
  here :: node
  ups :: "tag list"
  path :: "nat list"

function locs_below :: "tag list \<Rightarrow> nat list \<Rightarrow> node \<Rightarrow> loc list" where
  "locs_below us p (Text k s) = []"
| "locs_below us p (Element t a cs) =
     concat (map (\<lambda>(i, c). case c of
                    Text k s \<Rightarrow> []
                  | Element t' a' cs' \<Rightarrow>
                      \<lparr>here = c, ups = (t, a) # us, path = p @ [i]\<rparr>
                        # locs_below ((t, a) # us) (p @ [i]) c)
             (enumerate 0 cs))"
  by pat_completeness auto
termination
proof (relation "measure (\<lambda>(us, p, n). size n)")
  show "wf (measure (\<lambda>(us, p, n). size n))" by simp
next
  fix us :: "tag list" and p :: "nat list" and t a cs x i c t' a' cs'
  assume "x \<in> set (enumerate 0 cs)" "(i, c) = x" "c = Element t' a' cs'"
  then have "i < length cs" "cs ! i = c" by (auto simp: in_set_enumerate_eq)
  then have "c \<in> set cs" using nth_mem by blast
  then have "size c < Suc (size_list size cs)"
    by (induction cs) auto
  then show "(((t, a) # us, p @ [i], c), us, p, Element t a cs)
               \<in> measure (\<lambda>(us, p, n). size n)"
    by simp
qed

definition soup_locs :: "node \<Rightarrow> loc list" where
  "soup_locs soup = locs_below [] [] soup"

text \<open>
  \<^verbatim>\<open>find_all(string=True)\<close> lists the strings below a tag in document order,
  of whatever class.
\<close>

fun all_strings :: "node \<Rightarrow> (kind \<times> string) list" where
  "all_strings (Text k s) = [(k, s)]"
| "all_strings (Element t a cs) = concat (map all_strings cs)"

text \<open>
  \<^verbatim>\<open>tag.strings\<close> and \<^verbatim>\<open>tag.get_text()\<close> yield only the strings
  whose class is exactly one of the tag's \<^verbatim>\<open>interesting_string_types\<close>. A tag
  made by the parser or by \<^verbatim>\<open>new_tag\<close> takes these from its name: the class
  of the strings the parser puts into such a tag for the five special names, the plain
  strings and the CDATA sections for every other name (Beautiful Soup 4.11 and later).
  The classes are those of the tag on which the method is called, for all the strings
  below it.
\<close>

definition interesting_string_types :: "string \<Rightarrow> kind list" where
  "interesting_string_types t =
     (if t = ''rt'' then [RubyTextString]
      else if t = ''rp'' then [RubyParenthesisString]
      else if t = ''style'' then [Stylesheet]
      else if t = ''script'' then [Script]
      else if t = ''template'' then [TemplateString]
      else [NavigableString, CData])"

fun strings_of :: "kind list \<Rightarrow> node \<Rightarrow> string list" where
  "strings_of types (Text k s) = (if k \<in> set types then [s] else [])"
| "strings_of types (Element t a cs) = concat (map (strings_of types) cs)"

definition strings :: "node \<Rightarrow> string list" where
  "strings e = strings_of (interesting_string_types (name e)) e"

text \<open>
  \<^verbatim>\<open>get_text()\<close>, and \<^verbatim>\<open>get_text(strip=True)\<close>, which strips every
  string and drops the empty ones before joining.
\<close>

definition get_text :: "node \<Rightarrow> string" where
  "get_text e = concat (strings e)"

definition get_text_strip :: "node \<Rightarrow> string" where
  "get_text_strip e = concat (filter (\<lambda>s. s \<noteq> []) (map strip (strings e)))"

section \<open>Exceptions\<close>

text \<open>
  An exception carries the text \<^verbatim>\<open>str(e)\<close>. It is an instance of
  \<^verbatim>\<open>Exception\<close> (the selenium timeout, which is told apart because
  \<^verbatim>\<open>_handle_cloudflare\<close> does, or any other), or an instance of
  \<^verbatim>\<open>BaseException\<close> only, as \<^verbatim>\<open>KeyboardInterrupt\<close>,
  \<^verbatim>\<open>SystemExit\<close> and \<^verbatim>\<open>GeneratorExit\<close> are: these pass a
  clause \<^verbatim>\<open>except Exception\<close>. A function that can raise returns \<open>Inl\<close> of
  the exception.
\<close>

datatype exn = TimeoutException string | OtherException string | BaseException string

fun message :: "exn \<Rightarrow> string" where
  "message (TimeoutException m) = m"
| "message (OtherException m) = m"
| "message (BaseException m) = m"

fun is_exception :: "exn \<Rightarrow> bool" where
  "is_exception (TimeoutException m) = True"
| "is_exception (OtherException m) = True"
| "is_exception (BaseException m) = False"

text \<open>The texts of the TypeError, AttributeError and KeyError that the source can meet.\<close>

definition quoted :: "string \<Rightarrow> string" where
  "quoted s = [CHR 0x27] @ s @ [CHR 0x27]"

definition none_not_iterable :: string where
  "none_not_iterable = quoted ''NoneType'' @ '' object is not iterable''"

definition no_attribute :: "string \<Rightarrow> string \<Rightarrow> string" where
  "no_attribute ty attr = quoted ty @ '' object has no attribute '' @ quoted attr"


definition no_len :: "string \<Rightarrow> string" where
  "no_len ty = ''object of type '' @ quoted ty @ '' has no len()''"

section \<open>JSON values\<close>

text \<open>
  What \<^verbatim>\<open>json.loads\<close> returns: \<^verbatim>\<open>None\<close>, a boolean, an integer, a
  float, a string, a list or a dictionary. A float is given by its value (the
  \<^verbatim>\<open>NaN\<close> and the infinities that \<^verbatim>\<open>json.loads\<close> also reads are, for
  what is observed of them here, floats that are not zero). The source looks at such a
  value in two ways: it takes its truth value, and it calls \<^verbatim>\<open>len\<close>, which
  raises a TypeError on a value that has no length.
\<close>

datatype json =
    JNull | JBool bool | JInt int | JFloat rat | JString string
  | JArray "json list" | JObject "(string \<times> json) list"

fun json_truthy :: "json \<Rightarrow> bool" where
  "json_truthy JNull = False"
| "json_truthy (JBool b) = b"
| "json_truthy (JInt i) = (i \<noteq> 0)"
| "json_truthy (JFloat r) = (r \<noteq> 0)"
| "json_truthy (JString s) = (s \<noteq> [])"
| "json_truthy (JArray xs) = (xs \<noteq> [])"
| "json_truthy (JObject kvs) = (kvs \<noteq> [])"

fun json_len :: "json \<Rightarrow> exn + nat" where
  "json_len JNull = Inl (OtherException (no_len ''NoneType''))"
| "json_len (JBool b) = Inl (OtherException (no_len ''bool''))"
| "json_len (JInt i) = Inl (OtherException (no_len ''int''))"
| "json_len (JFloat r) = Inl (OtherException (no_len ''float''))"
| "json_len (JString s) = Inr (length s)"
| "json_len (JArray xs) = Inr (length xs)"
| "json_len (JObject kvs) = Inr (length kvs)"

text \<open>What \<^verbatim>\<open>tag.get(key)\<close> returns, as such a value.\<close>

fun attr_json :: "attr_val option \<Rightarrow> json" where
  "attr_json None = JNull"
| "attr_json (Some (Str s)) = JString s"
| "attr_json (Some (Toks ts)) = JArray (map JString ts)"


section \<open>SoupCleaner: pruning and its verification\<close>

definition content_labels :: "string list" where
  "content_labels =
     [''ali-zx9v8k2m4p-title-type'', ''ali-zx9v8k2m4p-date-type'',
      ''ali-zx9v8k2m4p-content-type'', ''ali-zx9v8k2m4p-metadate_type'',
      ''ali-zx9v8k2m4p-table_header_p9m2'', ''ali-zx9v8k2m4p-table_cell_p9m2'']"

definition structural_tags :: "string list" where
  "structural_tags =
     [''html'', ''head'', ''body'', ''main'', ''article'',
      ''style'', ''script'', ''link'', ''meta'',
      ''nav'', ''header'', ''footer'',
      ''button'', ''form'']"

definition should_keep_element :: "node \<Rightarrow> bool" where
  "should_keep_element e = list_ex (\<lambda>label. truthy (get e label)) content_labels"

definition has_labeled_descendant :: "node \<Rightarrow> bool" where
  "has_labeled_descendant e =
     list_ex (\<lambda>d. list_ex (\<lambda>label. truthy (get d label)) content_labels) (find_all e)"

definition is_structural_element :: "node \<Rightarrow> bool" where
  "is_structural_element e = (name e \<in> set structural_tags)"

text \<open>
  \<^verbatim>\<open>_process_element\<close> mutates the copy in place; here it returns what is left of
  the element: \<open>None\<close> when the element was decomposed, the element with its
  children processed otherwise. Text children are passed over.
\<close>

fun process_element :: "node \<Rightarrow> node option" where
  "process_element (Text k s) = Some (Text k s)"
| "process_element (Element t a cs) =
     (if should_keep_element (Element t a cs) then Some (Element t a cs)
      else if \<not> has_labeled_descendant (Element t a cs) then
        (if \<not> is_structural_element (Element t a cs) then None
         else Some (Element t a cs))
      else Some (Element t a
        (concat (map (\<lambda>c. case process_element c of None \<Rightarrow> [] | Some c' \<Rightarrow> [c']) cs))))"

text \<open>
  \<^verbatim>\<open>create_clean_soup\<close>: the deep copy is the value itself; the first
  \<^verbatim>\<open>body\<close>, when there is one, is processed.
\<close>

definition is_body :: "node \<Rightarrow> bool" where
  "is_body e = (name e = ''body'')"

definition create_clean_soup :: "node \<Rightarrow> node" where
  "create_clean_soup soup =
     (case apply_first is_body process_element (children soup) of
        None \<Rightarrow> soup
      | Some cs \<Rightarrow> Element (name soup) (attrs_of soup) cs)"

text \<open>
  \<^verbatim>\<open>find_all(attrs={label: True})\<close> keeps the tags on which the attribute is
  present, whatever its value; their identifiers are collected in a set.
\<close>

definition labeled_ids :: "node \<Rightarrow> string \<Rightarrow> attr_val option set" where
  "labeled_ids soup label =
     set (map (\<lambda>e. get e id_attr) (filter (\<lambda>e. get e label \<noteq> None) (find_all soup)))"

definition verify_clean_soup :: "node \<Rightarrow> bool" where
  "verify_clean_soup soup =
     list_all (\<lambda>label. labeled_ids soup label = labeled_ids (create_clean_soup soup) label)
       content_labels"

text \<open>
  A labeled document: wherever one of the label attributes is present, its value is not
  empty. The labeler only ever writes the fixed non-empty role values. The pruner
  tests a label by the truth value of \<^verbatim>\<open>element.get(label)\<close>, the verifier
  by the presence of the attribute; the two agree on such documents.
\<close>

definition labels_nonempty :: "node \<Rightarrow> bool" where
  "labels_nonempty soup =
     list_all (\<lambda>e. list_all (\<lambda>label. get e label \<noteq> None \<longrightarrow> truthy (get e label)) content_labels)
       (find_all soup)"

text \<open>The attribute dictionaries of the tags of a forest, in document order.\<close>

definition labeled_attrs :: "attrs \<Rightarrow> bool" where
  "labeled_attrs a = list_ex (\<lambda>label. truthy (map_of a label)) content_labels"

definition nattrs :: "node \<Rightarrow> attrs list" where
  "nattrs e = map attrs_of (elems e)"

definition eattrs :: "node list \<Rightarrow> attrs list" where
  "eattrs cs = concat (map nattrs cs)"

text \<open>
  The tags the pruner visits below a tag: it descends only through tags that carry no
  label and have a labeled descendant.
\<close>

fun scaffold_reach :: "node \<Rightarrow> node list" where
  "scaffold_reach (Text k s) = []"
| "scaffold_reach (Element t a cs) =
     Element t a cs #
     (if \<not> should_keep_element (Element t a cs) \<and> has_labeled_descendant (Element t a cs)
      then concat (map scaffold_reach cs) else [])"

text \<open>
  A labeled article page, after addressing and labeling: the \<^verbatim>\<open>h1\<close> carries
  the title label, the wrapped text of the first paragraph the content label.
\<close>

definition labeled_page :: node where
  "labeled_page =
     Element ''[document]'' []
      [Element ''html'' [(''ali-zx9v8k2m4p'', Str ''q7y5n3j6h_0'')]
        [Element ''head'' [(''ali-zx9v8k2m4p'', Str ''q7y5n3j6h_1'')]
          [Element ''title'' [(''ali-zx9v8k2m4p'', Str ''q7y5n3j6h_2'')]
            [Element ''ali-tx9v8k2m4p''
               [(''ali-tx9v8k2m4p-seq'', Str ''qw7x_1_p9m2''),
                (''ali-zx9v8k2m4p'', Str ''q7y5n3j6h_3'')]
               [Text NavigableString ''Acme News'']]],
         Element ''body'' [(''ali-zx9v8k2m4p'', Str ''q7y5n3j6h_4'')]
          [Element ''nav'' [(''ali-zx9v8k2m4p'', Str ''q7y5n3j6h_5'')]
            [Element ''a'' [(''href'', Str ''/about''), (''ali-zx9v8k2m4p'', Str ''q7y5n3j6h_6'')]
              [Element ''ali-tx9v8k2m4p''
                 [(''ali-tx9v8k2m4p-seq'', Str ''qw7x_2_p9m2''),
                  (''ali-zx9v8k2m4p'', Str ''q7y5n3j6h_7'')]
                 [Text NavigableString ''About'']]],
           Element ''div'' [(''ali-zx9v8k2m4p'', Str ''q7y5n3j6h_8'')]
            [Element ''h1''
               [(''ali-zx9v8k2m4p'', Str ''q7y5n3j6h_9''),
                (''ali-zx9v8k2m4p-title-type'', Str ''qw7x_article_title_p9m2'')]
               [Element ''ali-tx9v8k2m4p''
                  [(''ali-tx9v8k2m4p-seq'', Str ''qw7x_3_p9m2''),
                   (''ali-zx9v8k2m4p'', Str ''q7y5n3j6h_10'')]
                  [Text NavigableString ''Acme announces a product'']],
             Element ''p'' [(''ali-zx9v8k2m4p'', Str ''q7y5n3j6h_11'')]
               [Element ''ali-tx9v8k2m4p''
                  [(''ali-tx9v8k2m4p-seq'', Str ''qw7x_4_p9m2''),
                   (''ali-zx9v8k2m4p'', Str ''q7y5n3j6h_12''),
                   (''ali-zx9v8k2m4p-content-type'', Str ''qw7x_article_content_p9m2''),
                   (''ali-zx9v8k2m4p-content-tag'', Str ''ali-tx9v8k2m4p'')]
                  [Text NavigableString ''The product ships today.'']]],
           Element ''div'' [(''ali-zx9v8k2m4p'', Str ''q7y5n3j6h_13'')]
            [Element ''span'' [(''ali-zx9v8k2m4p'', Str ''q7y5n3j6h_14'')]
              [Element ''ali-tx9v8k2m4p''
                 [(''ali-tx9v8k2m4p-seq'', Str ''qw7x_5_p9m2''),
                  (''ali-zx9v8k2m4p'', Str ''q7y5n3j6h_15'')]
                 [Text NavigableString ''Share'']]]]]]"


section \<open>NewsGroupFinder: the link group classifier\<close>

subsection \<open>URL and anchor features\<close>

text \<open>
  \<^verbatim>\<open>_get_flexible_ancestry\<close>: the names of the ancestors, the soup's
  \<^verbatim>\<open>[document]\<close> first, joined by \<^verbatim>\<open>" > "\<close>.
\<close>

definition get_flexible_ancestry :: "loc \<Rightarrow> string" where
  "get_flexible_ancestry l = join '' > '' (rev (map fst (ups l)))"

text \<open>
  \<^verbatim>\<open>_is_social_media_url\<close>. The patterns are
  \<^verbatim>\<open>(?:^|[/.])?facebook\.com(?:/|$)\<close> and so on, searched ignoring case; the
  optional group in front constrains nothing.
\<close>

definition social_domains :: "string list" where
  "social_domains =
     [''facebook.com'', ''twitter.com'', ''instagram.com'', ''linkedin.com'',
      ''youtube.com'', ''tiktok.com'', ''pinterest.com'', ''reddit.com'', ''whatsapp.com'']"

definition is_social_media_url :: "string \<Rightarrow> nat" where
  "is_social_media_url url =
     (let url_lower = lower url in
      if contains url_lower ''/x.com'' \<or> contains url_lower ''www.x.com'' then 1
      else if list_ex (\<lambda>d. re_search_slash_or_end (lit d) (lower url)) social_domains then 1
      else 0)"

text \<open>
  \<^verbatim>\<open>re.sub(r'^https?://', '', url)\<close> and
  \<^verbatim>\<open>re.sub(r'^https?://[^/]+', '', url)\<close>: the second needs at least one
  character of the host and removes it up to the next slash.
\<close>

definition after_scheme :: "string \<Rightarrow> string option" where
  "after_scheme s =
     (if starts_with s ''https://'' then Some (drop 8 s)
      else if starts_with s ''http://'' then Some (drop 7 s)
      else None)"

definition strip_scheme :: "string \<Rightarrow> string" where
  "strip_scheme s = (case after_scheme s of None \<Rightarrow> s | Some r \<Rightarrow> r)"

definition strip_scheme_host :: "string \<Rightarrow> string" where
  "strip_scheme_host s =
     (case after_scheme s of
        None \<Rightarrow> s
      | Some r \<Rightarrow>
          if takeWhile (\<lambda>c. c \<noteq> CHR ''/'') r = [] then s
          else dropWhile (\<lambda>c. c \<noteq> CHR ''/'') r)"

text \<open>
  \<^verbatim>\<open>anchor['href']\<close>, which the parser gives as a string. (A list in its place
  makes \<^verbatim>\<open>find_news_group\<close> raise before any anchor is grouped, see below;
  \<open>href_of\<close> is then not used.)
\<close>

definition href_of :: "node \<Rightarrow> string" where
  "href_of a = (case get a ''href'' of Some (Str s) \<Rightarrow> s | _ \<Rightarrow> [])"

definition href_is_list :: "node \<Rightarrow> bool" where
  "href_is_list a = (case get a ''href'' of Some (Toks ts) \<Rightarrow> True | _ \<Rightarrow> False)"

definition url_patterns :: "string list" where
  "url_patterns =
     [''/legal'', ''/legal/'', ''/terms'', ''/terms/'', ''/privacy'', ''/privacy/'',
      ''/contact'', ''/contact/'', ''/careers'', ''/careers/'', ''/support'', ''/support/'',
      ''/blog'', ''/blog/'', ''/events'', ''/events/'', ''/about'', ''/about/'',
      ''/faq'', ''/faq/'', ''/investors'', ''/investors/'', ''/search'', ''/search/'',
      ''/sitemap'', ''/sitemap/'', ''/login'', ''/login/'', ''/register'', ''/register/'',
      ''/help'', ''/help/'', ''/company'', ''/company/'']"

definition typical_keywords :: "string list" where
  "typical_keywords =
     [''legal'', ''terms'', ''policy'', ''privacy'', ''contact'', ''careers'',
      ''conditions'', ''locations'', ''faq'', ''investors'', ''about'', ''settings'',
      ''cookies'', ''blog'', ''support'', ''help'', ''resources'', ''events'',
      ''login'', ''register'', ''account'', ''search'', ''sitemap'', ''media'',
      ''press'', ''directory'', ''community'', ''company'']"

definition is_typical_url :: "node \<Rightarrow> nat" where
  "is_typical_url anchor =
     (let url = href_of anchor;
          url_path = strip_scheme_host (lower url)
      in if url_path \<in> set url_patterns then 1
         else
           (let text = get_text_strip anchor in
            if text = [] then 0
            else
              (let words = map lower (split_runs (\<lambda>c. is_space c \<or> c = CHR ''-'') text) in
               if length words \<le> 4 \<and> list_ex (\<lambda>keyword. keyword \<in> set words) typical_keywords
               then 1 else 0)))"

text \<open>
  \<^verbatim>\<open>_analyze_url_structure\<close>: of its components the cascade reads only
  \<^verbatim>\<open>multi_level_path\<close>.
\<close>

definition multi_level_path :: "string \<Rightarrow> bool" where
  "multi_level_path url =
     (if starts_with url ''/'' then True
      else
        (let url_without_protocol = strip_scheme url;
             path_part = hd (split_on (CHR ''#'') (hd (split_on (CHR ''?'') url_without_protocol)))
         in if CHR ''/'' \<in> set path_part
            then length (filter (\<lambda>seg. seg \<noteq> []) (split_on (CHR ''/'') path_part)) \<ge> 2
            else False))"

text \<open>
  The segment that \<^verbatim>\<open>_get_last_path_length\<close> measures and
  \<^verbatim>\<open>_has_verb_with_context\<close> searches: the last path segment, or the one
  before it when the last one ends in a file extension
  (\<^verbatim>\<open>\.[a-zA-Z0-9]+$\<close>); \<open>None\<close> when that is the only segment.
\<close>

definition has_file_extension :: "string \<Rightarrow> bool" where
  "has_file_extension seg =
     re_search_end (Seq (Sym ''.'') (rplus (Sym (lower_class @ upper_class @ digit_class)))) seg"

definition meaningful_segment :: "string \<Rightarrow> string option" where
  "meaningful_segment url =
     (let clean_url = rstrip (\<lambda>c. c = CHR ''/'')
                        (hd (split_on (CHR ''#'') (hd (split_on (CHR ''?'') url))));
          segments = split_on (CHR ''/'') clean_url;
          last_segment = last segments
      in if has_file_extension last_segment
         then (if length segments < 2 then None
               else Some (segments ! (length segments - 2)))
         else Some last_segment)"

definition get_last_path_length :: "string \<Rightarrow> nat" where
  "get_last_path_length url =
     (case meaningful_segment url of None \<Rightarrow> 0 | Some seg \<Rightarrow> length seg)"

definition irregular_verbs :: "(string \<times> string) list" where
  "irregular_verbs =
     [(''take'', ''took''), (''give'', ''gave''), (''make'', ''made''), (''begin'', ''began''),
      (''win'', ''won''), (''set'', ''set''), (''create'', ''created'')]"

definition get_verb_variations :: "string \<Rightarrow> string list" where
  "get_verb_variations verb =
     [verb, verb @ ''s'']
     @ (if ends_with verb ''y'' then [butlast verb @ ''ies''] else [])
     @ [case map_of irregular_verbs verb of
          Some past \<Rightarrow> past
        | None \<Rightarrow>
            if ends_with verb ''e'' then verb @ ''d''
            else if ends_with verb ''y'' then butlast verb @ ''ied''
            else verb @ ''ed'']"

definition verb_list :: "string list" where
  "verb_list =
     [''announce'', ''start'', ''end'', ''finish'', ''open'', ''close'', ''report'',
      ''initiate'', ''terminate'', ''invest'', ''join'', ''collaborate'', ''hire'',
      ''agree'', ''surpass'', ''applaud'', ''raise'', ''deliver'', ''unveil'', ''plan'',
      ''showcase'', ''introduce'', ''present'', ''grant'', ''sign'', ''invest'',
      ''complete'', ''receive'', ''grant'', ''give'', ''select'', ''partner'', ''signal'',
      ''continue'', ''stop'', ''win'', ''launch'', ''set'', ''visit'', ''achieve'',
      ''dismiss'', ''take'', ''accelerate'', ''reach'', ''indicate'', ''enter'', ''exit'',
      ''produce'', ''create'', ''make'', ''move'', ''host'', ''locate'', ''forms'']"

definition has_verb_with_context :: "string \<Rightarrow> bool" where
  "has_verb_with_context url =
     (case meaningful_segment url of
        None \<Rightarrow> False
      | Some seg \<Rightarrow>
          (let words = map lower
                 (filter (\<lambda>w. w \<noteq> [])
                    (split_where (\<lambda>c. c \<in> set ''-_.'' \<or> is_space c) seg))
           in if length words \<le> 1 then False
              else list_ex (\<lambda>verb. list_ex (\<lambda>variation. variation \<in> set words)
                                     (get_verb_variations verb)) verb_list))"

text \<open>\<^verbatim>\<open>_make_absolute_url\<close>.\<close>

definition make_absolute_url :: "string \<Rightarrow> string \<Rightarrow> string" where
  "make_absolute_url base_url url =
     (if starts_with url ''http'' then url
      else rstrip (\<lambda>c. c = CHR ''/'') base_url @ ''/'' @ lstrip (\<lambda>c. c = CHR ''/'') url)"

subsection \<open>Grouping\<close>

definition invalid_hrefs :: "string list" where
  "invalid_hrefs = [''/'', '''', ''#'', ''javascript:void(0)'']"

text \<open>\<^verbatim>\<open>soup.find_all('a', href=True)\<close> and the filter on it.\<close>

definition all_anchors :: "node \<Rightarrow> loc list" where
  "all_anchors soup =
     filter (\<lambda>l. name (here l) = ''a'' \<and> get (here l) ''href'' \<noteq> None) (soup_locs soup)"

definition accept_anchor :: "loc \<Rightarrow> bool" where
  "accept_anchor anchor =
     (let href = href_of (here anchor) in
      href \<notin> set invalid_hrefs \<and>
      \<not> starts_with href ''#'' \<and>
      \<not> starts_with href ''tel:'' \<and>
      \<not> starts_with href ''mailto:'' \<and>
      is_social_media_url href = 0)"

definition anchors :: "node \<Rightarrow> loc list" where
  "anchors soup = filter accept_anchor (all_anchors soup)"

text \<open>
  \<^verbatim>\<open>ancestry_groups\<close> is a dictionary in insertion order, from the ancestry to
  the anchors kept for it; \<^verbatim>\<open>seen_urls\<close> holds the hrefs of exactly those
  anchors.
\<close>

definition add_anchor :: "(string \<times> loc list) list \<Rightarrow> loc \<Rightarrow> (string \<times> loc list) list" where
  "add_anchor groups anchor =
     (let ancestry = get_flexible_ancestry anchor;
          url = href_of (here anchor);
          grp = (case map_of groups ancestry of None \<Rightarrow> [] | Some g \<Rightarrow> g)
      in if url \<notin> set (map (\<lambda>a. href_of (here a)) grp)
         then AList.update ancestry (grp @ [anchor]) groups
         else groups)"

definition grouped_anchors :: "node \<Rightarrow> loc list list" where
  "grouped_anchors soup = map snd (foldl add_anchor [] (anchors soup))"

text \<open>
  A row of the data frame. The record keeps the columns that identify the group and
  those the cascade reads. \<open>multi_level_path_count\<close> is 0 where the row's dictionary
  has no such key; the column \<^verbatim>\<open>multi_level_path_pct\<close> is the count divided by
  \<open>url_count\<close>, and equals 1 exactly when the two are equal.
  \<^verbatim>\<open>verb_percentage\<close> is the float \<open>urls_with_verbs / url_count * 100\<close>;
  the comparison with 20 is made on the integers. (When \<open>5 * urls_with_verbs\<close> is
  \<open>url_count\<close>, the quotient is the double nearest to 0.2 and its product with 100
  rounds to 20; rounding is monotone, and one URL more or less moves the quotient by far
  more than the rounding error for any count below \<open>10\<^sup>1\<^sup>5\<close>.)
\<close>

record group_info =
  group_id :: nat
  ancestry :: string
  urls :: "string list"
  anchor_elements :: "loc list"
  url_count :: nat
  is_social_media_num :: nat
  num_typical_url :: nat
  last_path_median_length :: nat
  urls_with_verbs :: nat
  multi_level_path_count :: nat

definition group_info_of :: "nat \<Rightarrow> loc list \<Rightarrow> group_info" where
  "group_info_of i grp =
     (let us = map (\<lambda>a. href_of (here a)) grp;
          url_last_lengths = map get_last_path_length us
      in \<lparr>group_id = i,
          ancestry = get_flexible_ancestry (hd grp),
          urls = us,
          anchor_elements = grp,
          url_count = length us,
          is_social_media_num = sum_list (map is_social_media_url us),
          num_typical_url = length (filter (\<lambda>a. is_typical_url (here a) \<noteq> 0) grp),
          last_path_median_length =
            (if url_last_lengths = [] then 0
             else sort url_last_lengths ! (length url_last_lengths div 2)),
          urls_with_verbs = length (filter has_verb_with_context us),
          multi_level_path_count = length (filter multi_level_path us)\<rparr>)"

definition groups_data :: "node \<Rightarrow> group_info list" where
  "groups_data soup = map (\<lambda>(i, grp). group_info_of i grp) (enumerate 0 (grouped_anchors soup))"

text \<open>\<^verbatim>\<open>drop_duplicates\<close> on the set of URLs: the first row of each set stays.\<close>

definition drop_duplicates :: "group_info list \<Rightarrow> group_info list" where
  "drop_duplicates rows =
     foldl (\<lambda>kept g. if list_ex (\<lambda>h. set (urls h) = set (urls g)) kept then kept
                      else kept @ [g]) [] rows"

subsection \<open>The cascade\<close>

text \<open>
  The exception that leaves \<^verbatim>\<open>find_news_group\<close>: its message is
  \<^verbatim>\<open>Error finding news group: \<close> followed by the text of the KeyError, the
  quoted column name.
\<close>

datatype error = NewsGroupError string

definition wrapped_message :: "string \<Rightarrow> string" where
  "wrapped_message m = ''Error finding news group: '' @ m"

definition key_error_message :: "string \<Rightarrow> string" where
  "key_error_message column = wrapped_message (quoted column)"

definition verb_percentage_above_20 :: "group_info \<Rightarrow> bool" where
  "verb_percentage_above_20 g = (100 * urls_with_verbs g > 20 * url_count g)"

definition primary_filter :: "group_info \<Rightarrow> bool" where
  "primary_filter g =
     (num_typical_url g = 0 \<and> url_count g > 4 \<and> is_social_media_num g = 0 \<and>
      multi_level_path_count g = url_count g)"

definition max_of :: "nat list \<Rightarrow> nat" where
  "max_of xs = foldr max xs 0"

text \<open>
  \<^verbatim>\<open>find_news_group\<close>. Three exceptions leave the function, each wrapped in
  the exception above. An anchor whose href is a list passes the test against
  \<^verbatim>\<open>invalid_hrefs\<close> and then has no \<^verbatim>\<open>startswith\<close>. The data frame
  of no rows has no column \<^verbatim>\<open>urls\<close>, and a frame in which no row counted a
  multi-level path has no column \<^verbatim>\<open>multi_level_path_pct\<close>: reading either
  raises a KeyError.
\<close>

definition make_absolute :: "string \<Rightarrow> group_info \<Rightarrow> group_info" where
  "make_absolute base_url g = g\<lparr>urls := map (make_absolute_url base_url) (urls g)\<rparr>"

definition find_news_group :: "string \<Rightarrow> node \<Rightarrow> error + group_info option" where
  "find_news_group base_url soup =
     (let rows = groups_data soup in
      if list_ex (\<lambda>anchor. href_is_list (here anchor)) (all_anchors soup)
      then Inl (NewsGroupError (wrapped_message (no_attribute ''list'' ''startswith'')))
      else if rows = [] then Inl (NewsGroupError (key_error_message ''urls''))
      else
        (let df = drop_duplicates rows in
         if \<not> list_ex (\<lambda>g. multi_level_path_count g > 0) rows
         then Inl (NewsGroupError (key_error_message ''multi_level_path_pct''))
         else
           (let c0 = filter primary_filter df;
                c1 = (if length c0 > 1
                      then (let high_verb_candidates = filter verb_percentage_above_20 c0
                            in if length high_verb_candidates > 0 then high_verb_candidates
                               else c0)
                      else c0);
                c2 = (if length c1 > 1
                      then (let max_median_length = max_of (map last_path_median_length c1)
                            in filter (\<lambda>g. last_path_median_length g = max_median_length) c1)
                      else c1);
                c3 = (if length c2 > 1
                      then (let max_url_count = max_of (map url_count c2)
                            in filter (\<lambda>g. url_count g = max_url_count) c2)
                      else c2)
            in if length c3 = 1 then Inr (Some (make_absolute base_url (hd c3)))
               else Inr None)))"





text \<open>The primary filters without the test on the social-media count.\<close>

definition primary_filter_without_social :: "group_info \<Rightarrow> bool" where
  "primary_filter_without_social g =
     (num_typical_url g = 0 \<and> url_count g > 4 \<and> multi_level_path_count g = url_count g)"


subsection \<open>Example pages\<close>

definition link :: "string \<Rightarrow> string \<Rightarrow> node" where
  "link href text = Element ''a'' [(''href'', Str href)] [Text NavigableString text]"

definition item :: "string \<Rightarrow> string \<Rightarrow> node" where
  "item href text = Element ''li'' [] [link href text]"


text \<open>
  A page that lists the same five articles twice, in the main column and in a side
  box: two anchor groups with one set of URLs.
\<close>

definition five_items :: "node list" where
  "five_items =
     [item ''/news/acme-announces-alpha'' ''Acme announces Alpha'',
      item ''/news/acme-reports-results'' ''Acme reports results'',
      item ''/news/acme-launches-beta'' ''Acme launches Beta'',
      item ''/news/acme-opens-office'' ''Acme opens an office'',
      item ''/news/acme-hires-chief'' ''Acme hires a chief'']"


text \<open>A page with no link at all.\<close>

definition empty_page :: node where
  "empty_page =
     Element ''[document]'' []
      [Element ''html'' [] [Element ''body'' [] [Element ''p'' [] [Text NavigableString ''Nothing yet.'']]]]"

text \<open>A listing whose last entry links to a social-media account.\<close>

definition social_page :: node where
  "social_page =
     Element ''[document]'' []
      [Element ''html'' []
        [Element ''body'' []
          [Element ''ul'' []
            (five_items @ [item ''https://twitter.com/acme'' ''Follow Acme''])]]]"


section \<open>ArticleExtractor: node addressing\<close>

definition text_tag :: string where
  "text_tag = ''ali-tx9v8k2m4p''"

definition seq_attr :: string where
  "seq_attr = ''ali-tx9v8k2m4p-seq''"

definition seq_value :: "nat \<Rightarrow> string" where
  "seq_value idx = ''qw7x_'' @ string_of_nat idx @ ''_p9m2''"

definition id_value :: "nat \<Rightarrow> string" where
  "id_value idx = ''q7y5n3j6h_'' @ string_of_nat idx"

text \<open>
  \<^verbatim>\<open>_wrap_text_nodes\<close> first collects the strings of
  \<^verbatim>\<open>find_all(string=True)\<close>, whatever their class, that are not empty after
  \<^verbatim>\<open>strip()\<close>, in document order, then wraps the one at position \<open>idx\<close>
  (from 1) in a new tag carrying the sequence attribute. Wrapping a text node moves no
  other text node, so the two loops are one walk in document order that threads the next
  number: \<open>wrap_nodes idx cs\<close> returns the forest with its text nodes wrapped and the
  next free number.
\<close>

fun wrap_nodes :: "nat \<Rightarrow> node list \<Rightarrow> node list \<times> nat" where
  "wrap_nodes idx [] = ([], idx)"
| "wrap_nodes idx (Text k s # cs) =
     (if strip s \<noteq> []
      then (let (cs', n) = wrap_nodes (Suc idx) cs
            in (Element text_tag [(seq_attr, Str (seq_value idx))] [Text k s] # cs', n))
      else (let (cs', n) = wrap_nodes idx cs in (Text k s # cs', n)))"
| "wrap_nodes idx (Element t a ds # cs) =
     (let (ds', m) = wrap_nodes idx ds;
          (cs', n) = wrap_nodes m cs
      in (Element t a ds' # cs', n))"

definition wrap_text_nodes :: "node \<Rightarrow> node" where
  "wrap_text_nodes soup =
     Element (name soup) (attrs_of soup) (fst (wrap_nodes 1 (children soup)))"

text \<open>
  \<^verbatim>\<open>_label_elements\<close>: the tags below the soup, in document order, get
  the identifiers numbered from 0.
\<close>

fun label_nodes :: "nat \<Rightarrow> node list \<Rightarrow> node list \<times> nat" where
  "label_nodes idx [] = ([], idx)"
| "label_nodes idx (Text k s # cs) =
     (let (cs', n) = label_nodes idx cs in (Text k s # cs', n))"
| "label_nodes idx (Element t a ds # cs) =
     (let (ds', m) = label_nodes (Suc idx) ds;
          (cs', n) = label_nodes m cs
      in (Element t (AList.update id_attr (Str (id_value idx)) a) ds' # cs', n))"

definition label_elements :: "node \<Rightarrow> node" where
  "label_elements soup =
     Element (name soup) (attrs_of soup) (fst (label_nodes 0 (children soup)))"

text \<open>
  What the addressing claim speaks of: the strings below the soup that are not empty
  after \<^verbatim>\<open>strip()\<close>, in document order and each with its class; those among
  them whose parent is not a wrapper; a fresh snapshot, in which no tag has the wrapper's
  name and every attribute dictionary has each key once.
\<close>

definition fstrings :: "node list \<Rightarrow> (kind \<times> string) list" where
  "fstrings cs = concat (map all_strings cs)"

definition nonempty_strings :: "node \<Rightarrow> (kind \<times> string) list" where
  "nonempty_strings soup = filter (\<lambda>ks. strip (snd ks) \<noteq> []) (fstrings (children soup))"

fun text_children :: "node list \<Rightarrow> (kind \<times> string) list" where
  "text_children [] = []"
| "text_children (Text k s # cs) = (k, s) # text_children cs"
| "text_children (Element t a ds # cs) = text_children cs"

fun unwrapped :: "node \<Rightarrow> (kind \<times> string) list" where
  "unwrapped (Text k s) = []"
| "unwrapped (Element t a cs) =
     (if t = text_tag then [] else filter (\<lambda>ks. strip (snd ks) \<noteq> []) (text_children cs))
     @ concat (map unwrapped cs)"

definition fresh_snapshot :: "node \<Rightarrow> bool" where
  "fresh_snapshot soup =
     (name soup \<noteq> text_tag \<and>
      list_all (\<lambda>e. name e \<noteq> text_tag \<and> distinct (map fst (attrs_of e))) (find_all soup))"

text \<open>
  A snapshot as the parser gives it: a doctype, a comment, a script, strings of white
  space only (one of them a no-break space) between the tags, and eleven strings to
  wrap.
\<close>

definition raw_page :: node where
  "raw_page =
     Element ''[document]'' []
      [Text Doctype ''html'',
       Element ''html'' []
        [Element ''head'' []
          [Element ''title'' [] [Text NavigableString ''Acme News''],
           Element ''script'' [] [Text Script ''var built = 1;'']],
         Text NavigableString [CHR 0x0A],
         Element ''body'' [(''class'', Toks [''page''])]
          [Text Comment '' masthead '',
           Element ''h1'' [] [Text NavigableString ''Acme announces a product''],
           Text NavigableString [CHR 0x0A, CHR '' ''],
           Element ''p'' []
             [Text NavigableString ''The product '',
              Element ''b'' [] [Text NavigableString ''ships''],
              Text NavigableString '' today.''],
           Element ''p'' [] [Text NavigableString [CHR 0xA0]],
           Element ''ul'' []
             [Element ''li'' [] [Text NavigableString ''One''],
              Element ''li'' [] [Text NavigableString ''Two''],
              Element ''li'' [] [Text NavigableString ''Three'']]]]]"

text \<open>A tree without its identifier attributes, the tags of a forest, and a wrapper tag.\<close>

fun without_id :: "node \<Rightarrow> node" where
  "without_id (Text k s) = Text k s"
| "without_id (Element t a cs) = Element t (AList.delete id_attr a) (map without_id cs)"

definition felems :: "node list \<Rightarrow> node list" where
  "felems cs = concat (map elems cs)"

definition wrapper :: "nat \<Rightarrow> kind \<times> string \<Rightarrow> node" where
  "wrapper idx ks = Element text_tag [(seq_attr, Str (seq_value idx))] [Text (fst ks) (snd ks)]"

text \<open>The node addressing layer: both passes, once.\<close>

definition address :: "node \<Rightarrow> node" where
  "address soup = label_elements (wrap_text_nodes soup)"


section \<open>ArticleExtractor: the content body classifier\<close>

subsection \<open>\_is\_boilerplate\<close>

text \<open>
  The patterns. The basic ones are searched in the text ignoring case; the section
  headers are matched against \<^verbatim>\<open>text.strip().lower()\<close>. The lenient
  patterns are the strict ones between \<^verbatim>\<open>^.*\<close> and \<^verbatim>\<open>.*$\<close>,
  where the dot matches no newline.
\<close>

definition basic_patterns :: "rx list" where
  "basic_patterns =
     [lit ''copyright'',
      lit ''all rights reserved'',
      Seq (lit ''terms of '') (Alt (lit ''use'') (lit ''service'')),
      lit ''privacy policy'',
      lit ''contact us'',
      lit ''share this'',
      lit ''follow us'',
      lit ''subscribe to'']"

definition sp :: rx where
  "sp = Sym space_class"

definition sp_dash :: rx where
  "sp_dash = Sym (space_class @ ''-'')"

definition az_sp :: rx where
  "az_sp = Sym (lower_class @ space_class)"

definition forward_looking :: rx where
  "forward_looking =
     seqs [lit ''forward'', Star sp_dash, lit ''looking'', Star sp_dash,
           lit ''statement'', ropt (lit ''s'')]"

definition safe_harbor :: rx where
  "safe_harbor =
     seqs [lit ''safe'', rplus sp, lit ''harbor'', rplus sp, lit ''statement'', ropt (lit ''s'')]"

definition about_company :: rx where
  "about_company = seqs [lit ''about'', rplus sp, rplus az_sp]"

definition company_safe_harbor :: rx where
  "company_safe_harbor =
     seqs [rplus az_sp, ropt (Sym [CHR 0x27]), lit ''s'', rplus sp, lit ''safe'', rplus sp,
           lit ''harbor'', rplus sp, lit ''statement'']"

definition strict_section_headers :: "rx list" where
  "strict_section_headers =
     [forward_looking,
      safe_harbor,
      Seq (Star sp) about_company,
      Seq (Star sp) company_safe_harbor]"

definition lenient_section_headers :: "rx list" where
  "lenient_section_headers =
     map (\<lambda>p. seqs [Star dot, p, Star dot])
       [forward_looking, safe_harbor, about_company, company_safe_harbor]"

text \<open>
  The bold test, in the order the source evaluates it. The first two disjuncts look
  at the parent of the element. The third reads the class of the parent for its truth
  value and then iterates over the class of the element itself, which raises a
  TypeError when the element has no class attribute; iterating over a string yields its
  characters. \<^verbatim>\<open>.lower()\<close> on a list raises an AttributeError.
\<close>

definition class_has_bold :: "attr_val option \<Rightarrow> exn + bool" where
  "class_has_bold cls =
     (case cls of
        None \<Rightarrow> Inl (OtherException none_not_iterable)
      | Some (Toks ts) \<Rightarrow> Inr (list_ex (\<lambda>c. contains (lower c) ''bold'') ts)
      | Some (Str s) \<Rightarrow> Inr (list_ex (\<lambda>c. contains (lower [c]) ''bold'') s))"

definition is_bold :: "tag \<Rightarrow> node \<Rightarrow> exn + bool" where
  "is_bold parent element =
     (if fst parent \<in> set [''b'', ''strong''] then Inr True
      else
        (case map_of (snd parent) ''style'' of
           Some (Toks ts) \<Rightarrow> Inl (OtherException (no_attribute ''list'' ''lower''))
         | style \<Rightarrow>
             if contains (lower (case style of Some (Str s) \<Rightarrow> s | _ \<Rightarrow> [])) ''font-weight: bold''
             then Inr True
             else if \<not> truthy (map_of (snd parent) ''class'') then Inr False
             else class_has_bold (get element ''class'')))"

text \<open>
  \<^verbatim>\<open>_is_boilerplate(text, element)\<close> returns the pair
  \<open>(is_boilerplate, is_section_header)\<close>. The element comes with its place, since
  the source reads \<^verbatim>\<open>element.parent\<close>; on the soup itself the parent is
  \<^verbatim>\<open>None\<close>.
\<close>

definition is_boilerplate :: "string \<Rightarrow> loc \<Rightarrow> exn + (bool \<times> bool)" where
  "is_boilerplate text element =
     (if list_ex (\<lambda>pattern. re_search pattern (lower text)) basic_patterns then Inr (True, False)
      else
        (let stripped = lower (strip text);
             is_strict_section_header =
               list_ex (\<lambda>pattern. re_match_whole pattern stripped) strict_section_headers
         in if \<not> list_ex (\<lambda>pattern. re_match_whole pattern stripped) lenient_section_headers
            then Inr (False, is_strict_section_header)
            else
              (case ups element of
                 [] \<Rightarrow> Inl (OtherException (no_attribute ''NoneType'' ''name''))
               | parent # grand \<Rightarrow>
                   (case is_bold parent (here element) of
                      Inl e \<Rightarrow> Inl e
                    | Inr is_lenient_section_header \<Rightarrow>
                        Inr (False, is_strict_section_header \<or> is_lenient_section_header)))))"

subsection \<open>The walk of \_mark\_content\<close>

text \<open>
  The walk sets attributes on tags and keeps two variables, \<^verbatim>\<open>skip_remaining\<close>
  and \<^verbatim>\<open>processed_elements\<close>. It never reads an attribute it has set, so the
  state holds the assignments in the order they were made, each with the path of its
  tag, and the soup is written afterwards.
\<close>

type_synonym assignment = "nat list \<times> string \<times> attr_val"

record walk_state =
  skip_remaining :: bool
  processed_elements :: "attr_val option list"
  labels :: "assignment list"

definition content_type :: string where
  "content_type = ''ali-zx9v8k2m4p-content-type''"

definition content_tag :: string where
  "content_tag = ''ali-zx9v8k2m4p-content-tag''"

text \<open>
  \<^verbatim>\<open>get_direct_text\<close>: of \<^verbatim>\<open>element.strings\<close>, which holds the
  strings of the classes that are interesting for the element, those directly below the
  element, stripped, without the empty ones, joined by a blank. (A string further down
  has a parent that is a proper part of the element, so that parent is never equal to the
  element.)
\<close>

definition direct_strings :: "node \<Rightarrow> string list" where
  "direct_strings element =
     map snd (filter (\<lambda>ks. fst ks \<in> set (interesting_string_types (name element)))
                (text_children (children element)))"

definition get_direct_text :: "node \<Rightarrow> string" where
  "get_direct_text element =
     join '' '' (filter (\<lambda>s. s \<noteq> []) (map strip (direct_strings element)))"

text \<open>
  \<^verbatim>\<open>_mark_table\<close>: the header cells and then the data cells that hold text
  are labeled; the result says whether any was.
\<close>

definition mark_table :: "tag list \<Rightarrow> nat list \<Rightarrow> node \<Rightarrow> assignment list \<times> bool" where
  "mark_table us p table =
     (let cells = locs_below us p table;
          ths = filter (\<lambda>l. name (here l) = ''th'' \<and> get_text_strip (here l) \<noteq> []) cells;
          tds = filter (\<lambda>l. name (here l) = ''td'' \<and> get_text_strip (here l) \<noteq> []) cells
      in (map (\<lambda>l. (path l, content_type, Str ''qw7x_table_header_p9m2'')) ths
          @ map (\<lambda>l. (path l, content_type, Str ''qw7x_table_cell_p9m2'')) tds,
          ths \<noteq> [] \<or> tds \<noteq> []))"

text \<open>
  What both loops do with a table while \<^verbatim>\<open>skip_remaining\<close> is off: mark its
  cells and, if any was marked, label the table and add its identifier to the processed
  set; \<^verbatim>\<open>child['ali-zx9v8k2m4p']\<close> raises a KeyError on a table without
  identifier.
\<close>

definition table_branch :: "walk_state \<Rightarrow> tag list \<Rightarrow> nat list \<Rightarrow> node \<Rightarrow> exn + walk_state" where
  "table_branch st us p table =
     (case mark_table us p table of
        (cells, has_content) \<Rightarrow>
          if \<not> has_content then Inr (st\<lparr>labels := labels st @ cells\<rparr>)
          else
            (case get table id_attr of
               None \<Rightarrow> Inl (OtherException (quoted id_attr))
             | Some i \<Rightarrow>
                 Inr (st\<lparr>processed_elements := Some i # processed_elements st,
                         labels := labels st @ cells
                           @ [(p, content_type, Str ''qw7x_article_table_p9m2'')]\<rparr>)))"

text \<open>
  \<^verbatim>\<open>process_element_recursively\<close>, and the loop over the children of an
  element (\<open>i\<close> is the index of the first child of the list). \<open>us\<close> and \<open>p\<close> are
  the ancestors and the path of the element.
\<close>

fun process_element_recursively ::
      "walk_state \<Rightarrow> tag list \<Rightarrow> nat list \<Rightarrow> node \<Rightarrow> exn + walk_state"
  and process_children ::
      "walk_state \<Rightarrow> tag list \<Rightarrow> nat list \<Rightarrow> nat \<Rightarrow> node list \<Rightarrow> exn + walk_state"
where
  "process_element_recursively st us p (Text k s) = Inr st"
| "process_element_recursively st us p (Element t a cs) =
     (if skip_remaining st then Inr st
      else
        (let element = Element t a cs;
             element_id = get element id_attr
         in if element_id \<in> set (processed_elements st) then Inr st
            else
              (let st1 = st\<lparr>processed_elements := element_id # processed_elements st\<rparr>;
                   direct_text = get_direct_text element
               in if direct_text \<noteq> [] then
                    (case is_boilerplate direct_text \<lparr>here = element, ups = us, path = p\<rparr> of
                       Inl e \<Rightarrow> Inl e
                     | Inr (is_bp, is_section_header) \<Rightarrow>
                         if is_section_header then Inr (st1\<lparr>skip_remaining := True\<rparr>)
                         else if \<not> is_bp then
                           process_children
                             (st1\<lparr>labels := labels st1 @
                                    [(p, content_type, Str ''qw7x_article_content_p9m2''),
                                     (p, content_tag, Str t)]\<rparr>)
                             ((t, a) # us) p 0 cs
                         else process_children st1 ((t, a) # us) p 0 cs)
                  else process_children st1 ((t, a) # us) p 0 cs)))"
| "process_children st us p i [] = Inr st"
| "process_children st us p i (Text k s # cs) = process_children st us p (Suc i) cs"
| "process_children st us p i (Element t a ds # cs) =
     (if t = ''table'' then
        (case (if \<not> skip_remaining st then table_branch st us (p @ [i]) (Element t a ds)
               else Inr st) of
           Inl e \<Rightarrow> Inl e
         | Inr st' \<Rightarrow> process_children st' us p (Suc i) cs)
      else
        (case process_element_recursively st us (p @ [i]) (Element t a ds) of
           Inl e \<Rightarrow> Inl e
         | Inr st' \<Rightarrow> process_children st' us p (Suc i) cs))"

text \<open>The loop over \<^verbatim>\<open>content.find_all(target_tags)\<close>.\<close>

definition target_tags :: "string list" where
  "target_tags = [''p'', ''h2'', ''h3'', ''h4'', ''ul'', ''ol'', ''table'', ''blockquote'']"

fun main_loop :: "walk_state \<Rightarrow> loc list \<Rightarrow> exn + walk_state" where
  "main_loop st [] = Inr st"
| "main_loop st (element # rest) =
     (if get (here element) id_attr \<in> set (processed_elements st) then main_loop st rest
      else if name (here element) = ''table'' \<or> ''table'' \<in> set (map fst (ups element)) then
        (if name (here element) = ''table'' \<and> \<not> skip_remaining st then
           (case table_branch st (ups element) (path element) (here element) of
              Inl e \<Rightarrow> Inl e
            | Inr st' \<Rightarrow> main_loop st' rest)
         else main_loop st rest)
      else
        (case process_element_recursively st (ups element) (path element) (here element) of
           Inl e \<Rightarrow> Inl e
         | Inr st' \<Rightarrow> main_loop st' rest))"

definition initial_state :: walk_state where
  "initial_state = \<lparr>skip_remaining = False, processed_elements = [], labels = []\<rparr>"

definition mark_content_walk :: "loc \<Rightarrow> exn + walk_state" where
  "mark_content_walk content =
     main_loop initial_state
       (filter (\<lambda>l. name (here l) \<in> set target_tags)
          (locs_below (ups content) (path content) (here content)))"

text \<open>Writing the assignments into the soup, each at the path of its tag.\<close>

fun set_attr_at :: "nat list \<Rightarrow> string \<Rightarrow> attr_val \<Rightarrow> node \<Rightarrow> node" where
  "set_attr_at p k v (Text c s) = Text c s"
| "set_attr_at [] k v (Element t a cs) = Element t (AList.update k v a) cs"
| "set_attr_at (i # p) k v (Element t a cs) =
     Element t a (if i < length cs then cs[i := set_attr_at p k v (cs ! i)] else cs)"

definition apply_labels :: "node \<Rightarrow> assignment list \<Rightarrow> node" where
  "apply_labels soup ls = foldl (\<lambda>s (p, k, v). set_attr_at p k v s) soup ls"

text \<open>
  The container, when it is found by the first method of \<^verbatim>\<open>_mark_content\<close>,
  \<^verbatim>\<open>soup.find('article')\<close>, and the soup after the walk from a container. The
  two other methods of looking for the container are not part of this development.
\<close>

definition find_article :: "node \<Rightarrow> loc option" where
  "find_article soup =
     (case filter (\<lambda>l. name (here l) = ''article'') (soup_locs soup) of
        [] \<Rightarrow> None
      | content # others \<Rightarrow> Some content)"

definition mark_content_from :: "node \<Rightarrow> loc \<Rightarrow> exn + node" where
  "mark_content_from soup content =
     (case mark_content_walk content of
        Inl e \<Rightarrow> Inl e
      | Inr st \<Rightarrow> Inr (apply_labels soup (labels st)))"

subsection \<open>Example articles\<close>

definition cell_row :: "string \<Rightarrow> string \<Rightarrow> node" where
  "cell_row h d = Element ''tr'' [] [Element ''th'' [] [Text NavigableString h], Element ''td'' [] [Text NavigableString d]]"

text \<open>
  A release with a section header in bold: a paragraph and a table before it, a
  paragraph and a table after it.
\<close>

definition release_raw :: node where
  "release_raw =
     Element ''[document]'' []
      [Element ''html'' []
        [Element ''body'' []
          [Element ''article'' []
            [Element ''p'' [] [Text NavigableString ''Acme today announced a product.''],
             Element ''table'' [] [cell_row ''Year'' ''2024''],
             Element ''p'' [] [Element ''b'' [] [Text NavigableString ''Forward-Looking Statements'']],
             Element ''p'' [] [Text NavigableString ''Actual results may differ from these statements.''],
             Element ''table'' [] [cell_row ''Risk'' ''High'']]]]]"

definition release_page :: node where
  "release_page = address release_raw"

text \<open>
  A release whose paragraph has a class and mentions the company in passing; the text
  is not bold.
\<close>

definition classed_raw :: node where
  "classed_raw =
     Element ''[document]'' []
      [Element ''html'' []
        [Element ''body'' []
          [Element ''article'' []
            [Element ''p'' [(''class'', Toks [''intro''])]
               [Text NavigableString ''Learn more about our company'']]]]]"

definition classed_page :: node where
  "classed_page = address classed_raw"

text \<open>
  The wrapped text of that paragraph with its place, and the same text below a
  paragraph of class \<^verbatim>\<open>bold-text\<close>.
\<close>

definition passing_mention :: loc where
  "passing_mention =
     \<lparr>here = Element ''ali-tx9v8k2m4p''
               [(''ali-tx9v8k2m4p-seq'', Str ''qw7x_1_p9m2''),
                (''ali-zx9v8k2m4p'', Str ''q7y5n3j6h_4'')]
               [Text NavigableString ''Learn more about our company''],
      ups = [(''p'', [(''class'', Toks [''intro'']), (''ali-zx9v8k2m4p'', Str ''q7y5n3j6h_3'')]),
             (''article'', [(''ali-zx9v8k2m4p'', Str ''q7y5n3j6h_2'')]),
             (''body'', [(''ali-zx9v8k2m4p'', Str ''q7y5n3j6h_1'')]),
             (''html'', [(''ali-zx9v8k2m4p'', Str ''q7y5n3j6h_0'')]),
             (''[document]'', [])],
      path = [0, 0, 0, 0, 0]\<rparr>"

definition bold_class_mention :: loc where
  "bold_class_mention =
     passing_mention\<lparr>ups :=
       (''p'', [(''class'', Toks [''bold-text'']), (''ali-zx9v8k2m4p'', Str ''q7y5n3j6h_3'')])
       # tl (ups passing_mention)\<rparr>"

text \<open>
  The wrapped header text of \<open>release_page\<close> with its place, and the state of the
  walk once that text has been classified.
\<close>

definition header_text :: loc where
  "header_text =
     \<lparr>here = Element ''ali-tx9v8k2m4p''
               [(''ali-tx9v8k2m4p-seq'', Str ''qw7x_4_p9m2''),
                (''ali-zx9v8k2m4p'', Str ''q7y5n3j6h_13'')]
               [Text NavigableString ''Forward-Looking Statements''],
      ups = [(''b'', [(''ali-zx9v8k2m4p'', Str ''q7y5n3j6h_12'')]),
             (''p'', [(''ali-zx9v8k2m4p'', Str ''q7y5n3j6h_11'')]),
             (''article'', [(''ali-zx9v8k2m4p'', Str ''q7y5n3j6h_2'')]),
             (''body'', [(''ali-zx9v8k2m4p'', Str ''q7y5n3j6h_1'')]),
             (''html'', [(''ali-zx9v8k2m4p'', Str ''q7y5n3j6h_0'')]),
             (''[document]'', [])],
      path = [0, 0, 0, 2, 0, 0]\<rparr>"

definition halted_state :: walk_state where
  "halted_state =
     \<lparr>skip_remaining = True,
      processed_elements = [Some (Str ''q7y5n3j6h_13'')],
      labels = []\<rparr>"

definition release_targets :: "loc list" where
  "release_targets =
     (case find_article release_page of
        None \<Rightarrow> []
      | Some content \<Rightarrow>
          filter (\<lambda>l. name (here l) \<in> set target_tags)
            (locs_below (ups content) (path content) (here content)))"

text \<open>
  A paragraph that opens with a comment: the comment is wrapped like any other string,
  but it is no part of the strings of its wrapper.
\<close>

definition commented_page :: node where
  "commented_page =
     address
      (Element ''[document]'' []
        [Element ''html'' []
          [Element ''body'' []
            [Element ''article'' []
              [Element ''p'' []
                 [Text Comment ''About Acme'',
                  Text NavigableString ''Acme today announced a product.'']]]]])"

text \<open>A wrapped text in a plain paragraph.\<close>

definition plain_text :: "string \<Rightarrow> loc" where
  "plain_text s =
     \<lparr>here = Element ''ali-tx9v8k2m4p''
               [(''ali-tx9v8k2m4p-seq'', Str ''qw7x_1_p9m2''),
                (''ali-zx9v8k2m4p'', Str ''q7y5n3j6h_4'')]
               [Text NavigableString s],
      ups = [(''p'', [(''ali-zx9v8k2m4p'', Str ''q7y5n3j6h_3'')]),
             (''article'', [(''ali-zx9v8k2m4p'', Str ''q7y5n3j6h_2'')]),
             (''body'', [(''ali-zx9v8k2m4p'', Str ''q7y5n3j6h_1'')]),
             (''html'', [(''ali-zx9v8k2m4p'', Str ''q7y5n3j6h_0'')]),
             (''[document]'', [])],
      path = [0, 0, 0, 0, 0]\<rparr>"


section \<open>ArticleExtractor: the title\<close>

definition title_type :: string where
  "title_type = ''ali-zx9v8k2m4p-title-type''"

definition title_value :: string where
  "title_value = ''qw7x_article_title_p9m2''"

text \<open>
  The attribute filter of \<^verbatim>\<open>find\<close> with a string: the value is that string,
  or, for a multi-valued attribute, one of its tokens or their concatenation.
\<close>

definition attr_is :: "node \<Rightarrow> string \<Rightarrow> string \<Rightarrow> bool" where
  "attr_is e k v =
     (case get e k of
        None \<Rightarrow> False
      | Some (Str s) \<Rightarrow> s = v
      | Some (Toks ts) \<Rightarrow> v \<in> set ts \<or> join '' '' ts = v)"

text \<open>
  \<^verbatim>\<open>tag.string\<close>: the string of a tag with exactly one child, which is a
  string or a tag with a string.
\<close>

fun tag_string :: "node \<Rightarrow> string option" where
  "tag_string (Text k s) = Some s"
| "tag_string (Element t a [c]) = tag_string c"
| "tag_string (Element t a cs) = None"

text \<open>
  A candidate: the tag, its text and its identifier. The text is what
  \<^verbatim>\<open>og_title.get('content')\<close>, \<^verbatim>\<open>data['headline']\<close> or
  \<^verbatim>\<open>h1.get_text(strip=True)\<close> gave: a string for a heading, a string or
  \<^verbatim>\<open>None\<close> for a meta tag, any JSON value for a headline.
\<close>

record candidate =
  element :: node
  cand_text :: json
  ali_id :: "attr_val option"

definition is_named :: "string \<Rightarrow> node \<Rightarrow> bool" where
  "is_named t e = (name e = t)"

text \<open>
  The four sources of candidates, in the order of the source: the Open Graph meta tag,
  the JSON-LD script, the first \<^verbatim>\<open>h1\<close> of the first article, and, only when
  these gave no candidate at all, the first \<^verbatim>\<open>h1\<close> of the page.
  \<open>json_loads\<close> stands for \<^verbatim>\<open>json.loads\<close>, with \<open>None\<close> when it
  raises; the source passes over a script whose string is \<^verbatim>\<open>None\<close> or does
  not parse, and over a parsed value that is no dictionary or has no key
  \<^verbatim>\<open>headline\<close>.
\<close>

definition candidate_of_heading :: "node \<Rightarrow> candidate" where
  "candidate_of_heading h1 =
     \<lparr>element = h1, cand_text = JString (get_text_strip h1), ali_id = get h1 id_attr\<rparr>"

definition from_og :: "node \<Rightarrow> candidate list" where
  "from_og soup =
     (case find_first (\<lambda>e. is_named ''meta'' e \<and> attr_is e ''property'' ''og:title'')
             (children soup) of
        None \<Rightarrow> []
      | Some og_title \<Rightarrow>
          [\<lparr>element = og_title, cand_text = attr_json (get og_title ''content''),
            ali_id = get og_title id_attr\<rparr>])"

definition from_schema :: "(string \<Rightarrow> json option) \<Rightarrow> node \<Rightarrow> candidate list" where
  "from_schema json_loads soup =
     (case find_first (\<lambda>e. is_named ''script'' e \<and> attr_is e ''type'' ''application/ld+json'')
             (children soup) of
        None \<Rightarrow> []
      | Some schema \<Rightarrow>
          (case tag_string schema of
             None \<Rightarrow> []
           | Some js \<Rightarrow>
               (case json_loads js of
                  Some (JObject data) \<Rightarrow>
                    (case map_of data ''headline'' of
                       None \<Rightarrow> []
                     | Some headline \<Rightarrow>
                         [\<lparr>element = schema, cand_text = headline,
                           ali_id = get schema id_attr\<rparr>])
                | _ \<Rightarrow> [])))"

definition from_article :: "node \<Rightarrow> candidate list" where
  "from_article soup =
     (case find_first (is_named ''article'') (children soup) of
        None \<Rightarrow> []
      | Some article \<Rightarrow>
          (case find_first (is_named ''h1'') (children article) of
             None \<Rightarrow> []
           | Some h1 \<Rightarrow> [candidate_of_heading h1]))"

definition from_page :: "node \<Rightarrow> candidate list" where
  "from_page soup =
     (case find_first (is_named ''h1'') (children soup) of
        None \<Rightarrow> []
      | Some h1 \<Rightarrow> [candidate_of_heading h1])"

definition title_candidates :: "(string \<Rightarrow> json option) \<Rightarrow> node \<Rightarrow> candidate list" where
  "title_candidates json_loads soup =
     (let candidates = from_og soup @ from_schema json_loads soup @ from_article soup
      in if candidates = [] then from_page soup else candidates)"

text \<open>
  The list comprehension
  \<^verbatim>\<open>[c for c in title_candidates if c['text'] and len(c['text']) < 200]\<close>, which
  is outside every \<^verbatim>\<open>try\<close> block: a text that is true and has no length (a
  number that is not zero, \<^verbatim>\<open>True\<close>) ends it with the TypeError of
  \<^verbatim>\<open>len\<close>.
\<close>

fun valid_titles :: "candidate list \<Rightarrow> exn + candidate list" where
  "valid_titles [] = Inr []"
| "valid_titles (c # cs) =
     (if \<not> json_truthy (cand_text c) then valid_titles cs
      else
        (case json_len (cand_text c) of
           Inl e \<Rightarrow> Inl e
         | Inr n \<Rightarrow>
             (case valid_titles cs of
                Inl e \<Rightarrow> Inl e
              | Inr vs \<Rightarrow> Inr (if n < 200 then c # vs else vs))))"

definition text_length :: "candidate \<Rightarrow> nat" where
  "text_length c = (case json_len (cand_text c) of Inl e \<Rightarrow> 0 | Inr n \<Rightarrow> n)"

text \<open>\<^verbatim>\<open>max(xs, key=f)\<close> on a list that is not empty: the first maximal item.\<close>

fun first_max :: "('a \<Rightarrow> nat) \<Rightarrow> 'a \<Rightarrow> 'a list \<Rightarrow> 'a" where
  "first_max f best [] = best"
| "first_max f best (x # xs) = first_max f (if f x > f best then x else best) xs"

definition set_attr :: "string \<Rightarrow> attr_val \<Rightarrow> node \<Rightarrow> node" where
  "set_attr k v e = Element (name e) (AList.update k v (attrs_of e)) (children e)"

text \<open>
  \<^verbatim>\<open>_mark_title\<close>: the best of the valid candidates is looked up again by its
  identifier (\<^verbatim>\<open>soup.find(attrs={'ali-zx9v8k2m4p': ali_id})\<close>, for an
  identifier that is a string, as \<^verbatim>\<open>_label_elements\<close> writes it; an
  identifier \<open>None\<close> finds the first tag without the attribute) and the tag found
  gets the title label.
\<close>

definition label_title :: "candidate \<Rightarrow> node \<Rightarrow> node" where
  "label_title best_title soup =
     (case apply_first (\<lambda>e. get e id_attr = ali_id best_title)
             (\<lambda>e. Some (set_attr title_type (Str title_value) e)) (children soup) of
        None \<Rightarrow> soup
      | Some cs \<Rightarrow> Element (name soup) (attrs_of soup) cs)"

definition mark_title :: "(string \<Rightarrow> json option) \<Rightarrow> node \<Rightarrow> exn + node" where
  "mark_title json_loads soup =
     (case valid_titles (title_candidates json_loads soup) of
        Inl e \<Rightarrow> Inl e
      | Inr [] \<Rightarrow> Inr soup
      | Inr (c # cs) \<Rightarrow> Inr (label_title (first_max text_length c cs) soup))"

text \<open>Changing the first entry of a list that passes a test.\<close>

fun upd_first :: "('a \<Rightarrow> bool) \<Rightarrow> ('a \<Rightarrow> 'a) \<Rightarrow> 'a list \<Rightarrow> 'a list" where
  "upd_first Q u [] = []"
| "upd_first Q u (x # xs) = (if Q x then u x # xs else x # upd_first Q u xs)"

text \<open>
  The page of the scenario: an Open Graph title of 50 characters and an
  \<^verbatim>\<open>h1\<close> of 80 characters inside the article. It has no JSON-LD script.
\<close>

definition og_text :: string where
  "og_text = ''Acme Announces New Product Line for Global Markets''"

definition h1_text :: string where
  "h1_text = og_text @ '' and Expands European Presence''"

definition title_raw :: node where
  "title_raw =
     Element ''[document]'' []
      [Element ''html'' []
        [Element ''head'' []
          [Element ''meta'' [(''property'', Str ''og:title''), (''content'', Str og_text)] []],
         Element ''body'' []
          [Element ''article'' []
            [Element ''h1'' [] [Text NavigableString h1_text],
             Element ''p'' [] [Text NavigableString ''The new line ships today.'']]]]]"

definition title_page :: node where
  "title_page = address title_raw"

definition no_json :: "string \<Rightarrow> json option" where
  "no_json js = None"

text \<open>
  The same page with a JSON-LD script whose headline is the number 2024, and a
  \<^verbatim>\<open>json.loads\<close> that reads this script.
\<close>

definition headline_json :: string where
  "headline_json = ''{'' @ [CHR 0x22] @ ''headline'' @ [CHR 0x22] @ '': 2024}''"

definition numeric_raw :: node where
  "numeric_raw =
     Element ''[document]'' []
      [Element ''html'' []
        [Element ''head'' []
          [Element ''meta'' [(''property'', Str ''og:title''), (''content'', Str og_text)] [],
           Element ''script'' [(''type'', Str ''application/ld+json'')]
             [Text Script headline_json]],
         Element ''body'' []
          [Element ''article'' []
            [Element ''h1'' [] [Text NavigableString h1_text],
             Element ''p'' [] [Text NavigableString ''The new line ships today.'']]]]]"

definition numeric_page :: node where
  "numeric_page = address numeric_raw"

definition numeric_loads :: "string \<Rightarrow> json option" where
  "numeric_loads js =
     (if js = headline_json then Some (JObject [(''headline'', JInt 2024)]) else None)"


section \<open>ArticleExtractor: the date\<close>

text \<open>
  \<^verbatim>\<open>match.group()\<close> of \<^verbatim>\<open>re.search\<close>: the match at the leftmost
  position that has one. \<open>re_find\<close> takes the longest match there; for the three
  date patterns the match at a position is unique up to the number of digits of the
  year, which the greedy quantifier takes as large as possible, so this is the match
  Python returns.
\<close>

fun longest_prefix :: "rx \<Rightarrow> string \<Rightarrow> nat \<Rightarrow> nat option \<Rightarrow> nat option" where
  "longest_prefix r [] n best = (if nullable r then Some n else best)"
| "longest_prefix r (c # cs) n best =
     longest_prefix (deriv c r) cs (Suc n) (if nullable r then Some n else best)"

fun re_find :: "rx \<Rightarrow> string \<Rightarrow> string option" where
  "re_find r [] = (if nullable r then Some [] else None)"
| "re_find r (c # cs) =
     (case longest_prefix r (c # cs) 0 None of
        Some n \<Rightarrow> Some (take n (c # cs))
      | None \<Rightarrow> re_find r cs)"

definition digit :: rx where
  "digit = Sym digit_class"

definition date_patterns :: "rx list" where
  "date_patterns =
     [seqs [digit, digit, digit, digit, lit ''-'', digit, digit, lit ''-'', digit, digit],
      seqs [digit, ropt digit, lit ''/'', digit, ropt digit, lit ''/'',
            digit, digit, ropt digit, ropt digit],
      seqs [alts (map lit [''Jan'', ''Feb'', ''Mar'', ''Apr'', ''May'', ''Jun'',
                           ''Jul'', ''Aug'', ''Sep'', ''Oct'', ''Nov'', ''Dec'']),
            Star (Sym lower_class), lit '' '', digit, ropt digit, ropt (lit '',''), lit '' '',
            digit, digit, digit, digit]]"

definition pub_indicators :: "string list" where
  "pub_indicators = [''press'', ''release'', ''published'', ''posted'']"

definition date_type :: string where
  "date_type = ''ali-zx9v8k2m4p-date-type''"

definition date_value :: string where
  "date_value = ''qw7x_article_date_p9m2''"

definition parsed_date_attr :: string where
  "parsed_date_attr = ''ali-zx9v8k2m4p-parsed-date''"

text \<open>
  What the date code takes from outside: \<^verbatim>\<open>dateutil.parser.parse\<close> on a
  string (\<open>None\<close> when it raises), the clock, \<^verbatim>\<open>str\<close> of a date, and
  \<^verbatim>\<open>json.loads\<close> (\<open>None\<close> when it raises). A date is an instant on the
  time line, an integer; the clock is read once. The strings that the text patterns match
  name no time zone, so their dates can be compared with the clock.
\<close>

record date_lib =
  parse_date :: "string \<Rightarrow> int option"
  now :: int
  show_date :: "int \<Rightarrow> string"
  json_loads :: "string \<Rightarrow> json option"

text \<open>The node at a path, for \<^verbatim>\<open>text_node.parent\<close>.\<close>

fun node_at :: "node \<Rightarrow> nat list \<Rightarrow> node option" where
  "node_at n [] = Some n"
| "node_at (Text k s) (i # p) = None"
| "node_at (Element t a cs) (i # p) = (if i < length cs then node_at (cs ! i) p else None)"

definition class_text :: "attr_val \<Rightarrow> string" where
  "class_text v =
     lower (join '' '' (case v of Toks ts \<Rightarrow> ts | Str s \<Rightarrow> map (\<lambda>c. [c]) s))"

definition has_news_date_class :: "tag \<Rightarrow> bool" where
  "has_news_date_class tg =
     (case map_of (snd tg) ''class'' of
        None \<Rightarrow> False
      | Some v \<Rightarrow>
          if \<not> truthy (Some v) then False
          else (contains (class_text v) ''news'' \<or> contains (class_text v) ''new'')
               \<and> contains (class_text v) ''date'')"

record date_candidate =
  cand_date :: int
  cand_place :: "nat list"
  cand_score :: nat

text \<open>
  One round of the inner loop: the candidate a text node gives for a pattern, if any.
  A node without a match, with a match that does not parse, or with a date in the
  future gives none.
\<close>

definition date_candidate_of :: "date_lib \<Rightarrow> node \<Rightarrow> rx \<Rightarrow> loc \<Rightarrow> date_candidate option" where
  "date_candidate_of lib soup pattern text_node =
     (case re_find pattern (get_text (here text_node)) of
        None \<Rightarrow> None
      | Some date_str \<Rightarrow>
          (case parse_date lib date_str of
             None \<Rightarrow> None
           | Some parsed \<Rightarrow>
               if parsed > now lib then None
               else
                 (case node_at soup (butlast (path text_node)) of
                    None \<Rightarrow> None
                  | Some parent \<Rightarrow>
                      (let surrounding_text = lower (get_text parent);
                           by_class = (if list_ex has_news_date_class (ups text_node)
                                       then 5 else 0);
                           by_text = (if list_ex (\<lambda>indicator. contains surrounding_text indicator)
                                           pub_indicators
                                      then 5 else 0)
                       in Some \<lparr>cand_date = parsed, cand_place = path text_node,
                                cand_score = by_class + by_text\<rparr>))))"

text \<open>
  The two nested loops: for each pattern, in the order of the list, every wrapped text
  node in document order. Each candidate is listed with the index of its pattern and of
  its text node.
\<close>

definition text_nodes :: "node \<Rightarrow> loc list" where
  "text_nodes soup = filter (\<lambda>l. name (here l) = text_tag) (soup_locs soup)"

definition scan_pattern ::
  "date_lib \<Rightarrow> node \<Rightarrow> nat \<times> rx \<Rightarrow> ((nat \<times> nat) \<times> date_candidate) list" where
  "scan_pattern lib soup ip =
     concat (map (\<lambda>(n, text_node).
                    case date_candidate_of lib soup (snd ip) text_node of
                      None \<Rightarrow> []
                    | Some c \<Rightarrow> [((fst ip, n), c)])
               (enumerate 0 (text_nodes soup)))"

definition scan_dates :: "date_lib \<Rightarrow> node \<Rightarrow> ((nat \<times> nat) \<times> date_candidate) list" where
  "scan_dates lib soup = concat (map (scan_pattern lib soup) (enumerate 0 date_patterns))"

definition candidate_dates :: "date_lib \<Rightarrow> node \<Rightarrow> date_candidate list" where
  "candidate_dates lib soup = map snd (scan_dates lib soup)"

text \<open>
  The dates of the metadata, which win outright when they parse: the first meta tag
  with one of the two properties whose \<^verbatim>\<open>content\<close> parses, and else the
  \<^verbatim>\<open>datePublished\<close> of the first JSON-LD script. Whatever is raised on the
  way (a missing \<^verbatim>\<open>content\<close>, a script without a string, a value that is
  no string) is passed over.
\<close>

definition meta_date :: "date_lib \<Rightarrow> node \<Rightarrow> (loc \<times> int) option" where
  "meta_date lib soup =
     (case List.map_filter
             (\<lambda>meta.
                if get (here meta) ''property'' \<in>
                     set [Some (Str ''article:published_time''), Some (Str ''og:published_time'')]
                then (case get (here meta) ''content'' of
                        Some (Str c) \<Rightarrow> map_option (\<lambda>d. (meta, d)) (parse_date lib c)
                      | _ \<Rightarrow> None)
                else None)
             (filter (\<lambda>l. name (here l) = ''meta'') (soup_locs soup)) of
        [] \<Rightarrow> None
      | found # others \<Rightarrow> Some found)"

definition schema_date :: "date_lib \<Rightarrow> node \<Rightarrow> (loc \<times> int) option" where
  "schema_date lib soup =
     (case filter (\<lambda>l. is_named ''script'' (here l) \<and>
                        attr_is (here l) ''type'' ''application/ld+json'') (soup_locs soup) of
        [] \<Rightarrow> None
      | schema # others \<Rightarrow>
          (case tag_string (here schema) of
             None \<Rightarrow> None
           | Some js \<Rightarrow>
               (case json_loads lib js of
                  Some (JObject data) \<Rightarrow>
                    (case map_of data ''datePublished'' of
                       Some (JString published) \<Rightarrow>
                         map_option (\<lambda>d. (schema, d)) (parse_date lib published)
                     | _ \<Rightarrow> None)
                | _ \<Rightarrow> None)))"

definition date_labels :: "date_lib \<Rightarrow> nat list \<Rightarrow> int \<Rightarrow> assignment list" where
  "date_labels lib place d =
     [(place, date_type, Str date_value), (place, parsed_date_attr, Str (show_date lib d))]"

text \<open>\<^verbatim>\<open>_mark_date\<close>: the attributes it sets, and the soup with them.\<close>

definition mark_date_labels :: "date_lib \<Rightarrow> node \<Rightarrow> assignment list" where
  "mark_date_labels lib soup =
     (case meta_date lib soup of
        Some (meta, d) \<Rightarrow> date_labels lib (path meta) d
      | None \<Rightarrow>
          (case schema_date lib soup of
             Some (schema, d) \<Rightarrow> date_labels lib (path schema) d
           | None \<Rightarrow>
               (case candidate_dates lib soup of
                  [] \<Rightarrow> []
                | c # cs \<Rightarrow>
                    (let best_candidate = first_max cand_score c cs
                     in date_labels lib (cand_place best_candidate) (cand_date best_candidate)))))"

definition mark_date :: "date_lib \<Rightarrow> node \<Rightarrow> node" where
  "mark_date lib soup = apply_labels soup (mark_date_labels lib soup)"

text \<open>The order of the scan: by pattern first, by text node within a pattern.\<close>

definition scanned_before :: "nat \<times> nat \<Rightarrow> nat \<times> nat \<Rightarrow> bool" where
  "scanned_before k k' = (fst k < fst k' \<or> (fst k = fst k' \<and> snd k < snd k'))"

text \<open>
  The wording of the claim: of the candidates that tie for the highest score, the text
  node that comes first in the document.
\<close>

definition claimed_text_node :: "((nat \<times> nat) \<times> date_candidate) list \<Rightarrow> nat option" where
  "claimed_text_node found =
     (case found of
        [] \<Rightarrow> None
      | f # fs \<Rightarrow>
          (let top = fold max (map (\<lambda>kc. cand_score (snd kc)) fs) (cand_score (snd f));
               tied = filter (\<lambda>kc. cand_score (snd kc) = top) (f # fs)
           in (case map (\<lambda>kc. snd (fst kc)) tied of
                 [] \<Rightarrow> None
               | n # ns \<Rightarrow> Some (fold min ns n))))"

text \<open>
  A page with two dates and no metadata: a month-name date in the first paragraph, an
  ISO date in the second. The library parses the two date strings; the clock stands at
  3 November 2026. A date is written as the number \<open>yyyymmdd\<close>.
\<close>

definition dated_page :: node where
  "dated_page =
     address
      (Element ''[document]'' []
        [Element ''html'' []
          [Element ''body'' []
            [Element ''p'' [] [Text NavigableString ''San Jose, March 5, 2024''],
             Element ''p'' [] [Text NavigableString ''Updated 2024-03-01 by the company'']]]])"

definition example_lib :: date_lib where
  "example_lib =
     \<lparr>parse_date = (\<lambda>s. if s = ''2024-03-01'' then Some 20240301
                         else if s = ''March 5, 2024'' then Some 20240305
                         else None),
      now = 20261103,
      show_date = (\<lambda>d. if d = 20240301 then ''2024-03-01 00:00:00''
                        else if d = 20240305 then ''2024-03-05 00:00:00''
                        else []),
      json_loads = (\<lambda>js. None)\<rparr>"

text \<open>A page with a date in a script and a date in a paragraph.\<close>

definition script_dated_page :: node where
  "script_dated_page =
     address
      (Element ''[document]'' []
        [Element ''html'' []
          [Element ''head'' []
            [Element ''script'' [] [Text Script ''var built = 2024-03-01;'']],
           Element ''body'' []
            [Element ''p'' [] [Text NavigableString ''March 5, 2024'']]]])"


section \<open>ArticleExtractor.extract_article\<close>

text \<open>
  A call either returns a value or raises. What \<^verbatim>\<open>extract_article\<close> returns
  is the labeled soup or the error dictionary with the keys \<^verbatim>\<open>error\<close> and
  \<^verbatim>\<open>url\<close>.
\<close>

datatype 'a outcome = Returns 'a | Raises exn

datatype extraction = LabeledSoup node | ErrorDict string string

text \<open>
  The collaborators of one call: the browser (\<^verbatim>\<open>driver.get\<close>, the wait for
  the challenge form, the search for a cookie button with the click on it,
  \<^verbatim>\<open>page_source\<close>), the HTML parser (on the page source, and on the serialised
  soup for \<^verbatim>\<open>original_soup\<close>) and the four marking stages. Each may return or
  raise; the marking stages return the soup they mutated. The two pauses return.
\<close>

record env =
  driver_get :: "string \<Rightarrow> exn + unit"
  wait_challenge :: "exn + unit"
  accept_cookies :: "exn + unit"
  page_source :: "exn + string"
  parse :: "string \<Rightarrow> exn + node"
  reparse :: "node \<Rightarrow> exn + node"
  mark_title_stage :: "node \<Rightarrow> exn + node"
  mark_date_stage :: "node \<Rightarrow> exn + node"
  mark_content_stage :: "node \<Rightarrow> exn + node"
  mark_metadata_stage :: "node \<Rightarrow> exn + node"

definition and_then :: "exn + 'a \<Rightarrow> ('a \<Rightarrow> exn + 'b) \<Rightarrow> exn + 'b" where
  "and_then r f = (case r of Inl e \<Rightarrow> Inl e | Inr v \<Rightarrow> f v)"

text \<open>
  \<^verbatim>\<open>_handle_cloudflare\<close>. When the wait ends, the cookie button is looked for
  and clicked under \<^verbatim>\<open>except Exception: pass\<close>, and the result is True. When
  the wait raises, the result is True for the timeout and False for any other instance
  of \<^verbatim>\<open>Exception\<close>. An exception that is no instance of
  \<^verbatim>\<open>Exception\<close> passes both handlers.
\<close>

definition handle_cloudflare :: "env \<Rightarrow> exn + bool" where
  "handle_cloudflare env =
     (case wait_challenge env of
        Inr u \<Rightarrow>
          (case accept_cookies env of
             Inr u \<Rightarrow> Inr True
           | Inl e \<Rightarrow> if is_exception e then Inr True else Inl e)
      | Inl (TimeoutException m) \<Rightarrow> Inr True
      | Inl (OtherException m) \<Rightarrow> Inr False
      | Inl (BaseException m) \<Rightarrow> Inl (BaseException m))"

text \<open>The body of the \<^verbatim>\<open>try\<close> block.\<close>

definition extract_body :: "env \<Rightarrow> string \<Rightarrow> exn + node" where
  "extract_body env url =
     and_then (driver_get env url) (\<lambda>u.
     and_then (handle_cloudflare env) (\<lambda>passed.
       if \<not> passed then Inl (OtherException ''Could not bypass protection'')
       else
         and_then (page_source env) (\<lambda>source.
         and_then (parse env source) (\<lambda>parsed.
           let soup = label_elements (wrap_text_nodes parsed) in
           and_then (reparse env soup) (\<lambda>original_soup.
           and_then (mark_title_stage env soup) (\<lambda>soup1.
           and_then (mark_date_stage env soup1) (\<lambda>soup2.
           and_then (mark_content_stage env soup2) (\<lambda>soup3.
           mark_metadata_stage env soup3))))))))"

text \<open>
  \<^verbatim>\<open>try: ... except Exception as e: return {'error': str(e), 'url': url}\<close>:
  the handler takes the instances of \<^verbatim>\<open>Exception\<close>; any other exception
  leaves the function.
\<close>

definition extract_article :: "env \<Rightarrow> string \<Rightarrow> extraction outcome" where
  "extract_article env url =
     (case extract_body env url of
        Inr soup \<Rightarrow> Returns (LabeledSoup soup)
      | Inl e \<Rightarrow> if is_exception e then Returns (ErrorDict (message e) url) else Raises e)"

text \<open>
  The claim in its own words: whatever happens during the processing, the call returns,
  the labeled soup on success and the error dictionary on a fault.
\<close>

definition claimed_extraction :: "env \<Rightarrow> string \<Rightarrow> extraction outcome" where
  "claimed_extraction env url =
     (case extract_body env url of
        Inr soup \<Rightarrow> Returns (LabeledSoup soup)
      | Inl e \<Rightarrow> Returns (ErrorDict (message e) url))"

subsection \<open>Example calls\<close>

text \<open>
  The content stage on a page that has an \<^verbatim>\<open>article\<close> tag, which the first
  method of \<^verbatim>\<open>_mark_content\<close> takes as the container.
\<close>

definition article_content_stage :: "node \<Rightarrow> exn + node" where
  "article_content_stage soup =
     (case find_article soup of
        None \<Rightarrow> Inr soup
      | Some content \<Rightarrow> mark_content_from soup content)"

text \<open>
  An article page: an Open Graph title, and in the article a longer \<^verbatim>\<open>h1\<close>, a
  dated paragraph, a section header in bold and a paragraph after it.
\<close>

definition article_raw :: node where
  "article_raw =
     Element ''[document]'' []
      [Element ''html'' []
        [Element ''head'' []
          [Element ''meta'' [(''property'', Str ''og:title''), (''content'', Str og_text)] []],
         Element ''body'' []
          [Element ''article'' []
            [Element ''h1'' [] [Text NavigableString h1_text],
             Element ''p'' [] [Text NavigableString ''San Jose, March 5, 2024''],
             Element ''p'' [] [Text NavigableString ''Acme today announced a product.''],
             Element ''p'' [] [Element ''b'' [] [Text NavigableString ''Forward-Looking Statements'']],
             Element ''p'' [] [Text NavigableString ''Actual results may differ.'']]]]]"

text \<open>
  A call on that page. The browser loads the page (the wait for the challenge form
  times out, as it does on a page without one), the parser gives the tree above, and
  the stages are the title, date and content stages of this development; the page has no
  author, keywords or category metadata, so the metadata stage leaves it as it is. The
  same call on the page whose paragraph has a class, on the page with the numeric
  headline, and a call in which the user interrupts the page load: the
  \<^verbatim>\<open>KeyboardInterrupt\<close>, whose text is empty, is no instance of
  \<^verbatim>\<open>Exception\<close>.
\<close>

definition article_env :: env where
  "article_env =
     \<lparr>driver_get = (\<lambda>url. Inr ()),
      wait_challenge = Inl (TimeoutException ''Message: ''),
      accept_cookies = Inr (),
      page_source = Inr ''<html>...</html>'',
      parse = (\<lambda>source. Inr article_raw),
      reparse = (\<lambda>soup. Inr soup),
      mark_title_stage = mark_title no_json,
      mark_date_stage = (\<lambda>soup. Inr (mark_date example_lib soup)),
      mark_content_stage = article_content_stage,
      mark_metadata_stage = (\<lambda>soup. Inr soup)\<rparr>"

definition classed_env :: env where
  "classed_env = article_env\<lparr>parse := (\<lambda>source. Inr classed_raw)\<rparr>"

definition numeric_env :: env where
  "numeric_env =
     article_env\<lparr>parse := (\<lambda>source. Inr numeric_raw), mark_title_stage := mark_title numeric_loads\<rparr>"

definition interrupted_env :: env where
  "interrupted_env = article_env\<lparr>driver_get := (\<lambda>url. Inl (BaseException []))\<rparr>"

text \<open>The tags of a soup that carry a role label, each with its name and its labels.\<close>

definition role_labels :: "node \<Rightarrow> (string \<times> attrs) list" where
  "role_labels soup =
     filter (\<lambda>na. snd na \<noteq> [])
       (map (\<lambda>e. (name e, filter (\<lambda>kv. fst kv \<notin> set [id_attr, seq_attr, ''property'', ''content''])
                                 (attrs_of e)))
          (find_all soup))"


section \<open>The character tables\<close>

text \<open>
  \<open>lower_char\<close> maps the capitals to the small letters, in the order of the two
  tables, and changes no other character of the 256; \<open>is_space\<close> holds of exactly the
  twelve characters of \<open>space_class\<close>.
\<close>

lemma lower_char_table:
  "map lower_char (upper_class @ upper_accented) = lower_class @ lower_accented"
  by code_simp

lemma lower_char_changes:
  "filter (\<lambda>c. lower_char c \<noteq> c) (Enum.enum :: char list) = upper_class @ upper_accented"
  by code_simp

lemma is_space_table:
  "filter is_space (Enum.enum :: char list) = space_class"
  by code_simp


section \<open>Pruning preserves the labels\<close>

lemma nattrs_simps:
  "nattrs (Text k s) = []"
  "nattrs (Element t a ds) = a # eattrs ds"
  by (simp_all add: nattrs_def[abs_def] eattrs_def map_concat comp_def)

lemma eattrs_simps:
  "eattrs [] = []"
  "eattrs (c # cs) = nattrs c @ eattrs cs"
  "eattrs (xs @ ys) = eattrs xs @ eattrs ys"
  by (simp_all add: eattrs_def)

lemma eattrs_elems: "eattrs cs = map attrs_of (concat (map elems cs))"
  by (simp add: eattrs_def nattrs_def[abs_def] map_concat comp_def)

lemma should_keep_element_attrs: "should_keep_element e = labeled_attrs (attrs_of e)"
  by (simp add: should_keep_element_def labeled_attrs_def get_def)

lemma has_labeled_descendant_attrs:
  "has_labeled_descendant e = (\<exists>a \<in> set (eattrs (children e)). labeled_attrs a)"
  by (auto simp: has_labeled_descendant_def labeled_attrs_def list_ex_iff find_all_def
      eattrs_elems get_def)

lemma elems_trans: "x \<in> set (elems e) \<Longrightarrow> e \<in> set (elems d) \<Longrightarrow> x \<in> set (elems d)"
proof (induction d rule: elems.induct)
  case (1 s)
  then show ?case by simp
next
  case (2 t a cs)
  then show ?case by (cases "e = Element t a cs") auto
qed

text \<open>
  What the pruner removes carries no label: for a filter \<open>Q\<close> on attribute
  dictionaries that only labeled tags pass, the tags passing \<open>Q\<close> are the same before
  and after, in the same order.
\<close>

lemma process_element_filter:
  assumes "\<forall>a \<in> set (nattrs e). Q a \<longrightarrow> labeled_attrs a"
  shows "filter Q (nattrs e) =
         (case process_element e of None \<Rightarrow> [] | Some e' \<Rightarrow> filter Q (nattrs e'))"
  using assms
proof (induction e rule: process_element.induct)
  case (1 s)
  then show ?case by simp
next
  case (2 t a cs)
  let ?e = "Element t a cs"
  show ?case
  proof (cases "should_keep_element ?e")
    case True
    then show ?thesis by simp
  next
    case nk: False
    then have nQ: "\<not> Q a"
      using "2.prems" by (auto simp: should_keep_element_attrs nattrs_simps)
    show ?thesis
    proof (cases "has_labeled_descendant ?e")
      case False
      then have "\<forall>d \<in> set (eattrs cs). \<not> labeled_attrs d"
        by (simp add: has_labeled_descendant_attrs)
      with nQ "2.prems" have "filter Q (nattrs ?e) = []"
        by (auto simp: filter_empty_conv nattrs_simps)
      with nk False show ?thesis by simp
    next
      case True
      have IH: "filter Q (nattrs c) =
                (case process_element c of None \<Rightarrow> [] | Some e' \<Rightarrow> filter Q (nattrs e'))"
        if "c \<in> set cs" for c
      proof (rule "2.IH"[OF nk _ that])
        show "\<not> \<not> has_labeled_descendant ?e" using True by simp
        show "\<forall>a\<in>set (nattrs c). Q a \<longrightarrow> labeled_attrs a"
          using "2.prems" that by (auto simp: nattrs_simps eattrs_def)
      qed
      have "filter Q (eattrs cs) =
            filter Q (eattrs (concat (map (\<lambda>c. case process_element c of None \<Rightarrow> []
                                              | Some c' \<Rightarrow> [c']) cs)))"
        using IH
      proof (induction cs)
        case Nil
        then show ?case by simp
      next
        case (Cons c cs)
        then show ?case
          by (cases "process_element c") (auto simp: eattrs_simps)
      qed
      with nk True nQ show ?thesis
        by (simp add: nattrs_simps)
    qed
  qed
qed

lemma apply_first_filter:
  assumes "\<And>e. e \<in> set (concat (map elems cs)) \<Longrightarrow>
             filter Q (nattrs e) = (case f e of None \<Rightarrow> [] | Some e' \<Rightarrow> filter Q (nattrs e'))"
      and "apply_first P f cs = Some cs'"
  shows "filter Q (eattrs cs') = filter Q (eattrs cs)"
  using assms
proof (induction P f cs arbitrary: cs' rule: apply_first.induct)
  case (1 P f)
  then show ?case by simp
next
  case (2 P f k s cs)
  then show ?case by (auto simp: eattrs_simps nattrs_simps)
next
  case (3 P f t a ds cs)
  show ?case
  proof (cases "P (Element t a ds)")
    case True
    have "filter Q (nattrs (Element t a ds)) =
          (case f (Element t a ds) of None \<Rightarrow> [] | Some e' \<Rightarrow> filter Q (nattrs e'))"
      by (rule "3.prems"(1)) simp
    then show ?thesis using True "3.prems"(2)
      by (cases "f (Element t a ds)") (auto simp: eattrs_simps)
  next
    case False
    show ?thesis
    proof (cases "apply_first P f ds")
      case None
      with False "3.prems" "3.IH"(2) show ?thesis
        by (auto simp: eattrs_simps nattrs_simps)
    next
      case (Some ds')
      with False "3.prems" "3.IH"(1)[of ds'] show ?thesis
        by (auto simp: eattrs_simps nattrs_simps)
    qed
  qed
qed

lemma prune_preserves:
  assumes "labels_nonempty soup" "label \<in> set content_labels"
  shows "filter (\<lambda>a. map_of a label \<noteq> None) (eattrs (children (create_clean_soup soup)))
       = filter (\<lambda>a. map_of a label \<noteq> None) (eattrs (children soup))"
proof (cases "apply_first is_body process_element (children soup)")
  case None
  then show ?thesis by (simp add: create_clean_soup_def)
next
  case (Some cs')
  let ?Q = "\<lambda>a. map_of a label \<noteq> None"
  have wf: "labeled_attrs (attrs_of x)"
    if "x \<in> set (concat (map elems (children soup)))" "?Q (attrs_of x)" for x
    using assms that
    unfolding labels_nonempty_def find_all_def labeled_attrs_def list_all_iff list_ex_iff get_def
    by blast
  have "filter ?Q (eattrs cs') = filter ?Q (eattrs (children soup))"
  proof (rule apply_first_filter[OF _ Some])
    fix e assume e: "e \<in> set (concat (map elems (children soup)))"
    have sub: "x \<in> set (concat (map elems (children soup)))" if "x \<in> set (elems e)" for x
      using e that by (auto dest: elems_trans)
    show "filter ?Q (nattrs e) =
          (case process_element e of None \<Rightarrow> [] | Some e' \<Rightarrow> filter ?Q (nattrs e'))"
    proof (rule process_element_filter, rule ballI, rule impI)
      fix a assume "a \<in> set (nattrs e)" "?Q a"
      then obtain x where "x \<in> set (elems e)" "a = attrs_of x" by (auto simp: nattrs_def)
      with wf[OF sub] \<open>?Q a\<close> show "labeled_attrs a" by blast
    qed
  qed
  with Some show ?thesis by (simp add: create_clean_soup_def)
qed

lemma labeled_ids_attrs:
  "labeled_ids soup label =
     set (map (\<lambda>a. map_of a id_attr)
            (filter (\<lambda>a. map_of a label \<noteq> None) (eattrs (children soup))))"
  by (simp add: labeled_ids_def find_all_def eattrs_elems get_def filter_map comp_def)

text \<open>
  C1. For every labeled document (every label attribute that is present has a non-empty
  value), the clean copy made by \<^verbatim>\<open>create_clean_soup\<close> bears, for every label
  kind, the same set of node identifiers as the original, and
  \<^verbatim>\<open>verify_clean_soup\<close> returns True.
\<close>

theorem prune_preserves_labels:
  assumes "labels_nonempty soup"
  shows "verify_clean_soup soup \<and>
         (\<forall>label \<in> set content_labels.
            labeled_ids (create_clean_soup soup) label = labeled_ids soup label)"
proof -
  have "labeled_ids (create_clean_soup soup) label = labeled_ids soup label"
    if "label \<in> set content_labels" for label
    unfolding labeled_ids_attrs by (simp only: prune_preserves[OF assms that])
  then show ?thesis by (simp add: verify_clean_soup_def list_all_iff)
qed

theorem prune_preserves_labels_witness:
  "labels_nonempty labeled_page \<and> verify_clean_soup labeled_page \<and>
   labeled_ids (create_clean_soup labeled_page) ''ali-zx9v8k2m4p-title-type''
     = {Some (Str ''q7y5n3j6h_9'')}"
proof -
  have wf: "labels_nonempty labeled_page" by code_simp
  have "labeled_ids labeled_page ''ali-zx9v8k2m4p-title-type'' = {Some (Str ''q7y5n3j6h_9'')}"
    by (simp add: labeled_ids_def labeled_page_def find_all_def get_def id_attr_def)
  with wf prune_preserves_labels[OF wf] show ?thesis by (simp add: content_labels_def)
qed

section \<open>What the pruned copy still holds\<close>

lemma process_element_labeled:
  "filter labeled_attrs (nattrs e) =
     (case process_element e of None \<Rightarrow> [] | Some e' \<Rightarrow> filter labeled_attrs (nattrs e'))"
  by (rule process_element_filter) simp

lemma process_element_shape:
  assumes "process_element e = Some e'"
  shows "name e' = name e \<and> attrs_of e' = attrs_of e"
  using assms by (cases e) (auto split: if_splits)

lemma process_children_labeled:
  "filter labeled_attrs (eattrs (concat (map (\<lambda>c. case process_element c of None \<Rightarrow> []
                                              | Some c' \<Rightarrow> [c']) cs)))
   = filter labeled_attrs (eattrs cs)"
proof (induction cs)
  case Nil
  then show ?case by simp
next
  case (Cons c cs)
  then show ?case
    using process_element_labeled[of c]
    by (cases "process_element c") (auto simp: eattrs_simps)
qed

lemma has_labeled_descendant_filter:
  "has_labeled_descendant e = (filter labeled_attrs (eattrs (children e)) \<noteq> [])"
  by (auto simp: has_labeled_descendant_attrs filter_empty_conv)

lemma process_element_reduced:
  assumes "process_element e = Some e'"
  shows "\<forall>x \<in> set (scaffold_reach e').
           should_keep_element x \<or> has_labeled_descendant x \<or> is_structural_element x"
  using assms
proof (induction e arbitrary: e' rule: process_element.induct)
  case (1 s)
  then show ?case by auto
next
  case (2 t a cs)
  let ?e = "Element t a cs"
  show ?case
  proof (cases "should_keep_element ?e")
    case True
    with "2.prems" show ?thesis by auto
  next
    case nk: False
    show ?thesis
    proof (cases "has_labeled_descendant ?e")
      case False
      with nk "2.prems" show ?thesis by (auto split: if_splits)
    next
      case True
      let ?cs' = "concat (map (\<lambda>c. case process_element c of None \<Rightarrow> [] | Some c' \<Rightarrow> [c']) cs)"
      from nk True "2.prems" have e': "e' = Element t a ?cs'" by simp
      have hd: "has_labeled_descendant e'"
        using True unfolding e' has_labeled_descendant_filter
        by (simp add: process_children_labeled)
      have nk': "\<not> should_keep_element e'"
        using nk by (simp add: e' should_keep_element_attrs)
      have "should_keep_element x \<or> has_labeled_descendant x \<or> is_structural_element x"
        if "c' \<in> set ?cs'" "x \<in> set (scaffold_reach c')" for c' x
      proof -
        from that(1) obtain c where "c \<in> set cs" "process_element c = Some c'"
          by (auto split: option.splits)
        from "2.IH"[OF nk _ this] True that(2) show ?thesis by auto
      qed
      with hd nk' show ?thesis by (auto simp: e' simp del: process_element.simps)
    qed
  qed
qed

lemma apply_first_None: "apply_first P f cs = None \<longleftrightarrow> find_first P cs = None"
  by (induction P f cs rule: apply_first.induct) (auto split: option.splits)

lemma find_first_P: "find_first P cs = Some b \<Longrightarrow> P b"
  by (induction P cs rule: find_first.induct) (auto split: if_splits option.splits)

lemma apply_first_find_first:
  assumes "apply_first P f cs = Some cs'"
      and "\<And>e. P e \<Longrightarrow> \<exists>t a ds. f e = Some (Element t a ds) \<and> P (Element t a ds)"
      and "\<And>t a ds ds'. P (Element t a ds) = P (Element t a ds')"
  shows "\<exists>b. find_first P cs = Some b \<and> find_first P cs' = f b"
  using assms
proof (induction P f cs arbitrary: cs' rule: apply_first.induct)
  case (1 P f)
  then show ?case by simp
next
  case (2 P f k s cs)
  from "2.prems"(1) obtain cs'' where "apply_first P f cs = Some cs''" "cs' = Text k s # cs''"
    by auto
  with "2.IH"[OF this(1) "2.prems"(2,3)] show ?case by auto
next
  case (3 P f t a ds cs)
  show ?case
  proof (cases "P (Element t a ds)")
    case True
    from "3.prems"(2)[OF True] obtain t' a' ds' where
      e': "f (Element t a ds) = Some (Element t' a' ds')" "P (Element t' a' ds')" by blast
    with True "3.prems"(1) show ?thesis by auto
  next
    case False
    show ?thesis
    proof (cases "apply_first P f ds")
      case None
      then have nf: "find_first P ds = None" by (simp add: apply_first_None)
      from None False "3.prems"(1) obtain cs'' where
        c: "apply_first P f cs = Some cs''" "cs' = Element t a ds # cs''" by auto
      from "3.IH"(2)[OF False None c(1) "3.prems"(2,3)] nf False c(2) show ?thesis by auto
    next
      case (Some ds')
      with False "3.prems"(1) have c: "cs' = Element t a ds' # cs" by simp
      from "3.IH"(1)[OF False Some "3.prems"(2,3)] obtain b where
        b: "find_first P ds = Some b" "find_first P ds' = f b" by blast
      from "3.prems"(2)[OF find_first_P[OF b(1)]] have "\<exists>e'. f b = Some e'" by auto
      with b False c "3.prems"(3)[of t a ds ds'] show ?thesis by auto
    qed
  qed
qed

lemma process_body:
  assumes "is_body e"
  shows "\<exists>t a ds. process_element e = Some (Element t a ds) \<and> is_body (Element t a ds)"
  using assms by (cases e) (auto simp: is_body_def is_structural_element_def structural_tags_def)

text \<open>
  C2, as stated, fails. In the clean copy of \<open>labeled_page\<close> the tags
  \<^verbatim>\<open>title\<close> (in the head, which is never processed), \<^verbatim>\<open>a\<close> (below
  the structural \<^verbatim>\<open>nav\<close>, which has no labeled descendant and is kept whole)
  and the text wrapper below the labeled \<^verbatim>\<open>h1\<close> (kept verbatim with it) have
  no label, no labeled descendant and no structural tag.
\<close>

theorem prune_reduction_counterexample:
  "\<not> list_all (\<lambda>x. should_keep_element x \<or> has_labeled_descendant x \<or> is_structural_element x)
       (find_all (create_clean_soup labeled_page))"
  by code_simp

text \<open>
  C2, amended. In the clean copy, every tag of the first \<^verbatim>\<open>body\<close> that the
  pruner visits (the body itself and, recursively, the children of every visited tag that
  carries no label and has a labeled descendant) has a label, a labeled descendant or a
  structural tag. Tags outside the first body, below a labeled tag, or below a structural
  tag without labeled descendants are kept verbatim and are not covered.
\<close>

theorem prune_reduces_visited:
  assumes "find_first is_body (children (create_clean_soup soup)) = Some b"
  shows "\<forall>x \<in> set (scaffold_reach b).
           should_keep_element x \<or> has_labeled_descendant x \<or> is_structural_element x"
proof (cases "apply_first is_body process_element (children soup)")
  case None
  then have "find_first is_body (children soup) = None" by (simp add: apply_first_None)
  with None assms show ?thesis by (simp add: create_clean_soup_def)
next
  case (Some cs')
  have shape: "is_body (Element t a ds) = is_body (Element t a ds')" for t a ds ds'
    by (simp add: is_body_def)
  from apply_first_find_first[OF Some process_body shape] obtain b0 where
    "find_first is_body (children soup) = Some b0" "find_first is_body cs' = process_element b0"
    by blast
  with Some assms have "process_element b0 = Some b" by (simp add: create_clean_soup_def)
  then show ?thesis by (rule process_element_reduced)
qed

theorem prune_reduces_visited_witness:
  "find_first is_body (children (create_clean_soup labeled_page)) \<noteq> None \<and>
   list_all (\<lambda>x. should_keep_element x \<or> has_labeled_descendant x \<or> is_structural_element x)
     (scaffold_reach (the (find_first is_body (children (create_clean_soup labeled_page))))) \<and>
   map name (scaffold_reach (the (find_first is_body (children (create_clean_soup labeled_page)))))
     = [''body'', ''nav'', ''div'', ''h1'', ''p'', ''ali-tx9v8k2m4p'']"
proof -
  have f: "find_first is_body (children (create_clean_soup labeled_page)) \<noteq> None"
    by code_simp
  then obtain b where
    b: "find_first is_body (children (create_clean_soup labeled_page)) = Some b"
    by blast
  have "map name (scaffold_reach
          (the (find_first is_body (children (create_clean_soup labeled_page)))))
        = [''body'', ''nav'', ''div'', ''h1'', ''p'', ''ali-tx9v8k2m4p'']"
    by code_simp
  with f b prune_reduces_visited[OF b] show ?thesis by (simp add: list_all_iff)
qed


section \<open>The link group classifier\<close>

subsection \<open>Social-media links never reach a group\<close>

lemma set_alist_update: "set (AList.update k v al) \<subseteq> insert (k, v) (set al)"
  by (induction al) auto

lemma add_anchor_sub:
  assumes inv: "\<And>k g a. (k, g) \<in> set groups \<Longrightarrow> a \<in> set g \<Longrightarrow> a \<in> A"
      and new: "anchor \<in> A"
      and mem: "(k, g) \<in> set (add_anchor groups anchor)" "a \<in> set g"
  shows "a \<in> A"
proof -
  let ?k = "get_flexible_ancestry anchor"
  let ?g = "case map_of groups ?k of None \<Rightarrow> [] | Some g \<Rightarrow> g"
  have g: "x \<in> A" if "x \<in> set ?g" for x
  proof (cases "map_of groups ?k")
    case None
    with that show ?thesis by simp
  next
    case (Some g')
    then have "(?k, g') \<in> set groups" by (rule map_of_SomeD)
    with that Some inv show ?thesis by auto
  qed
  have "set (AList.update ?k (?g @ [anchor]) groups) \<subseteq> insert (?k, ?g @ [anchor]) (set groups)"
    by (rule set_alist_update)
  with mem(1) have "(k, g) \<in> set groups \<or> g = ?g @ [anchor]"
    by (auto simp: add_anchor_def Let_def split: if_splits)
  then show ?thesis
  proof
    assume "(k, g) \<in> set groups"
    with inv mem(2) show ?thesis by blast
  next
    assume "g = ?g @ [anchor]"
    with mem(2) g new show ?thesis by auto
  qed
qed

lemma foldl_add_anchor_sub:
  assumes "\<And>k g a. (k, g) \<in> set groups \<Longrightarrow> a \<in> set g \<Longrightarrow> a \<in> A"
      and "set xs \<subseteq> A"
      and "(k, g) \<in> set (foldl add_anchor groups xs)" "a \<in> set g"
  shows "a \<in> A"
  using assms
proof (induction xs arbitrary: groups)
  case Nil
  then show ?case by auto
next
  case (Cons x xs)
  show ?case
  proof (rule Cons.IH[of "add_anchor groups x"])
    fix k' g' a' assume "(k', g') \<in> set (add_anchor groups x)" "a' \<in> set g'"
    with Cons.prems(1,2) show "a' \<in> A"
      by (intro add_anchor_sub[of groups A x k' g' a']) auto
  next
    show "set xs \<subseteq> A" using Cons.prems(2) by simp
    show "(k, g) \<in> set (foldl add_anchor (add_anchor groups x) xs)" using Cons.prems(3) by simp
    show "a \<in> set g" by fact
  qed
qed

lemma grouped_anchors_accepted:
  assumes "grp \<in> set (grouped_anchors soup)" "a \<in> set grp"
  shows "accept_anchor a"
proof -
  from assms(1) obtain k where "(k, grp) \<in> set (foldl add_anchor [] (anchors soup))"
    by (auto simp: grouped_anchors_def)
  then have "a \<in> set (anchors soup)"
    using assms(2) by (intro foldl_add_anchor_sub[of "[]" "set (anchors soup)" "anchors soup" k grp a]) auto
  then show ?thesis by (simp add: anchors_def)
qed

lemma sum_list_zero: "(\<And>x. x \<in> set xs \<Longrightarrow> f x = (0::nat)) \<Longrightarrow> sum_list (map f xs) = 0"
  by (induction xs) auto

lemma groups_data_social:
  assumes "g \<in> set (groups_data soup)"
  shows "(\<forall>url \<in> set (urls g). is_social_media_url url = 0) \<and> is_social_media_num g = 0"
proof -
  from assms obtain i where i: "i < length (grouped_anchors soup)"
      "g = group_info_of i (grouped_anchors soup ! i)"
    by (auto simp: groups_data_def in_set_enumerate_eq)
  define grp where "grp = grouped_anchors soup ! i"
  have grp: "grp \<in> set (grouped_anchors soup)" using i(1) by (simp add: grp_def)
  have z: "is_social_media_url (href_of (here a)) = 0" if "a \<in> set grp" for a
    using grouped_anchors_accepted[OF grp that] by (simp add: accept_anchor_def Let_def)
  have "sum_list (map is_social_media_url (map (\<lambda>a. href_of (here a)) grp)) = 0"
    by (rule sum_list_zero) (use z in auto)
  with z show ?thesis
    by (auto simp: i(2) grp_def[symmetric] group_info_of_def Let_def)
qed

lemma drop_duplicates_sub: "set (drop_duplicates rows) \<subseteq> set rows"
proof -
  have "set (foldl (\<lambda>kept g. if list_ex (\<lambda>h. set (urls h) = set (urls g)) kept then kept
                      else kept @ [g]) acc rows) \<subseteq> set acc \<union> set rows" for acc
  proof (induction rows arbitrary: acc)
    case Nil
    then show ?case by simp
  next
    case (Cons r rows)
    show ?case
      using Cons.IH[of acc] Cons.IH[of "acc @ [r]"] by (auto split: if_splits)
  qed
  from this[of "[]"] show ?thesis by (simp add: drop_duplicates_def)
qed

text \<open>
  C10. Every anchor group assembled by \<^verbatim>\<open>find_news_group\<close> holds no
  social-media URL: the anchors whose href matches were left out before grouping. So
  every group's social-media count is 0, and the primary filter keeps the same rows with
  and without its test on that count.
\<close>

theorem social_count_zero:
  "(\<forall>g \<in> set (groups_data soup).
      (\<forall>url \<in> set (urls g). is_social_media_url url = 0) \<and> is_social_media_num g = 0) \<and>
   filter primary_filter (drop_duplicates (groups_data soup)) =
     filter primary_filter_without_social (drop_duplicates (groups_data soup))"
proof -
  have "primary_filter g = primary_filter_without_social g"
    if "g \<in> set (drop_duplicates (groups_data soup))" for g
    using that drop_duplicates_sub[of "groups_data soup"] groups_data_social[of g soup]
    by (auto simp: primary_filter_def primary_filter_without_social_def)
  then have "filter primary_filter (drop_duplicates (groups_data soup)) =
     filter primary_filter_without_social (drop_duplicates (groups_data soup))"
    by (intro filter_cong) auto
  with groups_data_social show ?thesis by blast
qed


theorem social_count_zero_witness:
  "map (\<lambda>a. href_of (here a)) (all_anchors social_page) =
     [''/news/acme-announces-alpha'', ''/news/acme-reports-results'',
      ''/news/acme-launches-beta'', ''/news/acme-opens-office'',
      ''/news/acme-hires-chief'', ''https://twitter.com/acme''] \<and>
   map (\<lambda>g. (urls g, is_social_media_num g)) (groups_data social_page) =
     [([''/news/acme-announces-alpha'', ''/news/acme-reports-results'',
        ''/news/acme-launches-beta'', ''/news/acme-opens-office'',
        ''/news/acme-hires-chief''], 0)] \<and>
   filter primary_filter (drop_duplicates (groups_data social_page)) =
     filter primary_filter_without_social (drop_duplicates (groups_data social_page))"
proof -
  have 1: "map (\<lambda>a. href_of (here a)) (all_anchors social_page) =
     [''/news/acme-announces-alpha'', ''/news/acme-reports-results'',
      ''/news/acme-launches-beta'', ''/news/acme-opens-office'',
      ''/news/acme-hires-chief'', ''https://twitter.com/acme'']"
    by code_simp
  have 2: "map (\<lambda>g. (urls g, is_social_media_num g)) (groups_data social_page) =
     [([''/news/acme-announces-alpha'', ''/news/acme-reports-results'',
        ''/news/acme-launches-beta'', ''/news/acme-opens-office'',
        ''/news/acme-hires-chief''], 0)]"
    by code_simp
  from 1 2 social_count_zero[of social_page] show ?thesis by blast
qed

subsection \<open>The filter cascade\<close>







text \<open>
  On a page without any accepted anchor the data frame has no columns, and the function
  raises instead of returning null.
\<close>

lemma find_news_group_empty_page:
  "find_news_group ''https://news.acme.com/'' empty_page =
     Inl (NewsGroupError (key_error_message ''urls''))"
  by code_simp




text \<open>
  The words of an anchor text are split at white space as Python knows it: a no-break
  space between \<^verbatim>\<open>Press\<close> and \<^verbatim>\<open>release\<close> separates two words, and
  the anchor counts as a typical link.
\<close>

lemma nbsp_anchor_is_typical:
  "is_typical_url (link ''/news/acme-press'' (''Press'' @ [CHR 0xA0] @ ''release'')) = 1"
  by code_simp

section \<open>Node addressing\<close>

lemma felems_simps:
  "felems [] = []"
  "felems (Text k s # cs) = felems cs"
  "felems (Element t a ds # cs) = Element t a ds # felems ds @ felems cs"
  "felems (xs @ ys) = felems xs @ felems ys"
  by (simp_all add: felems_def)

lemma fstrings_simps:
  "fstrings [] = []"
  "fstrings (Text k s # cs) = (k, s) # fstrings cs"
  "fstrings (Element t a ds # cs) = fstrings ds @ fstrings cs"
  by (simp_all add: fstrings_def)

lemma wrap_nodes_count:
  "wrap_nodes i cs = (cs', n) \<Longrightarrow> n = i + length (filter (\<lambda>ks. strip (snd ks) \<noteq> []) (fstrings cs))"
proof (induction i cs arbitrary: cs' n rule: wrap_nodes.induct)
  case (1 idx)
  then show ?case by (simp add: fstrings_simps)
next
  case (2 idx k s cs)
  then show ?case by (auto simp: fstrings_simps split: if_splits prod.splits)
next
  case (3 idx t a ds cs)
  then show ?case by (auto simp: fstrings_simps split: prod.splits)
qed

lemma wrap_nodes_strings:
  "wrap_nodes i cs = (cs', n) \<Longrightarrow> fstrings cs' = fstrings cs"
proof (induction i cs arbitrary: cs' n rule: wrap_nodes.induct)
  case (1 idx)
  then show ?case by simp
next
  case (2 idx k s cs)
  then show ?case by (auto simp: fstrings_simps split: if_splits prod.splits)
next
  case (3 idx t a ds cs)
  then show ?case by (auto simp: fstrings_simps split: prod.splits)
qed

lemma wrap_nodes_wrappers:
  "wrap_nodes i cs = (cs', n) \<Longrightarrow> \<forall>e \<in> set (felems cs). name e \<noteq> text_tag \<Longrightarrow>
   filter (\<lambda>e. name e = text_tag) (felems cs') =
     map (\<lambda>(j, ks). wrapper j ks) (enumerate i (filter (\<lambda>ks. strip (snd ks) \<noteq> []) (fstrings cs)))"
proof (induction i cs arbitrary: cs' n rule: wrap_nodes.induct)
  case (1 idx)
  then show ?case by (simp add: fstrings_simps felems_simps)
next
  case (2 idx k s cs)
  then show ?case
    by (auto simp: fstrings_simps felems_simps wrapper_def split: if_splits prod.splits)
next
  case (3 idx t a ds cs)
  obtain ds' m where d: "wrap_nodes idx ds = (ds', m)" by fastforce
  obtain cs'' k where c: "wrap_nodes m cs = (cs'', k)" by fastforce
  from d c "3.prems"(1) have cs': "cs' = Element t a ds' # cs''" by simp
  have m: "m = idx + length (filter (\<lambda>ks. strip (snd ks) \<noteq> []) (fstrings ds))"
    using d by (rule wrap_nodes_count)
  from "3.prems"(2) have t: "t \<noteq> text_tag" and fd: "\<forall>e \<in> set (felems ds). name e \<noteq> text_tag"
    and fc: "\<forall>e \<in> set (felems cs). name e \<noteq> text_tag"
    by (auto simp: felems_simps)
  from "3.IH"(1)[OF d fd] "3.IH"(2)[OF d[symmetric] refl c fc] t
  show ?case
    by (simp add: cs' felems_simps fstrings_simps enumerate_append_eq m)
qed

lemma wrap_nodes_others:
  "wrap_nodes i cs = (cs', n) \<Longrightarrow> \<forall>e \<in> set (felems cs). name e \<noteq> text_tag \<Longrightarrow>
   map (\<lambda>e. (name e, attrs_of e)) (filter (\<lambda>e. name e \<noteq> text_tag) (felems cs')) =
     map (\<lambda>e. (name e, attrs_of e)) (felems cs)"
proof (induction i cs arbitrary: cs' n rule: wrap_nodes.induct)
  case (1 idx)
  then show ?case by (simp add: felems_simps)
next
  case (2 idx k s cs)
  then show ?case
    by (auto simp: felems_simps split: if_splits prod.splits)
next
  case (3 idx t a ds cs)
  obtain ds' m where d: "wrap_nodes idx ds = (ds', m)" by fastforce
  obtain cs'' k where c: "wrap_nodes m cs = (cs'', k)" by fastforce
  from d c "3.prems"(1) have cs': "cs' = Element t a ds' # cs''" by simp
  from "3.prems"(2) have t: "t \<noteq> text_tag" and fd: "\<forall>e \<in> set (felems ds). name e \<noteq> text_tag"
    and fc: "\<forall>e \<in> set (felems cs). name e \<noteq> text_tag"
    by (auto simp: felems_simps)
  from "3.IH"(1)[OF d fd] "3.IH"(2)[OF d[symmetric] refl c fc] t
  show ?case
    by (simp add: cs' felems_simps)
qed

lemma wrap_nodes_unwrapped:
  "wrap_nodes i cs = (cs', n) \<Longrightarrow>
   filter (\<lambda>ks. strip (snd ks) \<noteq> []) (text_children cs') = [] \<and> concat (map unwrapped cs') = []"
proof (induction i cs arbitrary: cs' n rule: wrap_nodes.induct)
  case (1 idx)
  then show ?case by simp
next
  case (2 idx k s cs)
  then show ?case
    by (auto split: if_splits prod.splits)
next
  case (3 idx t a ds cs)
  obtain ds' m where d: "wrap_nodes idx ds = (ds', m)" by fastforce
  obtain cs'' k where c: "wrap_nodes m cs = (cs'', k)" by fastforce
  from d c "3.prems"(1) have cs': "cs' = Element t a ds' # cs''" by simp
  from "3.IH"(1)[OF d] "3.IH"(2)[OF d[symmetric] refl c]
  show ?case
    by (simp add: cs')
qed


lemma label_nodes_count:
  "label_nodes i cs = (cs', n) \<Longrightarrow> n = i + length (felems cs)"
proof (induction i cs arbitrary: cs' n rule: label_nodes.induct)
  case (1 idx)
  then show ?case by (simp add: felems_simps)
next
  case (2 idx k s cs)
  then show ?case by (auto simp: felems_simps split: prod.splits)
next
  case (3 idx t a ds cs)
  then show ?case by (auto simp: felems_simps split: prod.splits)
qed

lemma label_nodes_attrs:
  "label_nodes i cs = (cs', n) \<Longrightarrow>
   map attrs_of (felems cs') =
     map (\<lambda>(j, e). AList.update id_attr (Str (id_value j)) (attrs_of e)) (enumerate i (felems cs))"
proof (induction i cs arbitrary: cs' n rule: label_nodes.induct)
  case (1 idx)
  then show ?case by (simp add: felems_simps)
next
  case (2 idx k s cs)
  then show ?case by (auto simp: felems_simps split: prod.splits)
next
  case (3 idx t a ds cs)
  obtain ds' m where d: "label_nodes (Suc idx) ds = (ds', m)" by fastforce
  obtain cs'' k where c: "label_nodes m cs = (cs'', k)" by fastforce
  from d c "3.prems"(1) have cs': "cs' = Element t (AList.update id_attr (Str (id_value idx)) a) ds' # cs''"
    by simp
  have m: "m = Suc idx + length (felems ds)" using d by (rule label_nodes_count)
  from "3.IH"(1)[OF d] "3.IH"(2)[OF d[symmetric] refl c]
  show ?case
    by (simp add: cs' felems_simps enumerate_append_eq m)
qed

lemma label_nodes_without_id:
  "label_nodes i cs = (cs', n) \<Longrightarrow> map without_id cs' = map without_id cs"
proof (induction i cs arbitrary: cs' n rule: label_nodes.induct)
  case (1 idx)
  then show ?case by simp
next
  case (2 idx k s cs)
  then show ?case by (auto split: prod.splits)
next
  case (3 idx t a ds cs)
  then show ?case by (auto simp: delete_update_same split: prod.splits)
qed


lemma name_without_id [simp]: "name (without_id e) = name e"
  by (cases e) auto

lemma felems_without_id: "felems (map without_id cs) = map without_id (felems cs)"
proof -
  have "elems (without_id e) = map without_id (elems e)" for e
    by (induction e rule: without_id.induct) (auto simp: map_concat comp_def intro: arg_cong[where f=concat])
  then show ?thesis by (simp add: felems_def map_concat comp_def)
qed

lemma text_children_without_id [simp]: "text_children (map without_id cs) = text_children cs"
  by (induction cs rule: text_children.induct) auto

lemma unwrapped_without_id [simp]: "unwrapped (without_id e) = unwrapped e"
  by (induction e rule: without_id.induct) (auto simp: comp_def intro: arg_cong[where f=concat])

lemma without_id_eq_forest:
  assumes "map without_id cs' = map without_id cs"
  shows "map without_id (filter (\<lambda>e. name e = tg) (felems cs')) =
         map without_id (filter (\<lambda>e. name e = tg) (felems cs))"
    and "text_children cs' = text_children cs"
    and "concat (map unwrapped cs') = concat (map unwrapped cs)"
proof -
  have f: "map without_id (filter (\<lambda>e. name e = tg) xs) =
           filter (\<lambda>e. name e = tg) (map without_id xs)" for xs
    by (induction xs) auto
  from assms have "felems (map without_id cs') = felems (map without_id cs)" by simp
  then show "map without_id (filter (\<lambda>e. name e = tg) (felems cs')) =
         map without_id (filter (\<lambda>e. name e = tg) (felems cs))"
    by (simp add: f felems_without_id)
  from assms have "text_children (map without_id cs') = text_children (map without_id cs)" by simp
  then show "text_children cs' = text_children cs" by simp
  from assms have "concat (map unwrapped (map without_id cs')) = concat (map unwrapped (map without_id cs))"
    by simp
  then show "concat (map unwrapped cs') = concat (map unwrapped cs)" by (simp add: comp_def)
qed

lemma string_of_nat_inverse:
  "foldl (\<lambda>a c. 10 * a + (of_char c - 48)) 0 (string_of_nat n) = n"
proof (induction n rule: string_of_nat.induct)
  case (1 n)
  show ?case
  proof (cases "n < 10")
    case True
    then have "string_of_nat n = [digit_char n]" by (subst string_of_nat.simps) simp
    with True show ?thesis by (simp add: digit_char_def)
  next
    case False
    have "n mod 10 < 10" by simp
    then have d: "(of_char (digit_char (n mod 10)) :: nat) = 48 + n mod 10"
      by (simp add: digit_char_def)
    from False have "string_of_nat n = string_of_nat (n div 10) @ [digit_char (n mod 10)]"
      by (subst string_of_nat.simps) simp
    with False "1.IH" d show ?thesis by simp
  qed
qed

lemma string_of_nat_inj: "string_of_nat m = string_of_nat n \<Longrightarrow> m = n"
  by (metis string_of_nat_inverse)

lemma id_value_inj: "inj id_value"
  by (auto simp: inj_def id_value_def dest: string_of_nat_inj)


lemma count_key_one:
  "distinct (map fst al) \<Longrightarrow> map_of al k = Some v \<Longrightarrow>
   length (filter (\<lambda>kv. fst kv = k) al) = 1"
proof (induction al)
  case Nil
  then show ?case by simp
next
  case (Cons x al)
  show ?case
  proof (cases "fst x = k")
    case True
    from Cons.prems(1) have "fst x \<notin> fst ` set al" by simp
    then have "\<forall>kv \<in> set al. fst kv \<noteq> fst x" by (metis imageI)
    with True have "filter (\<lambda>kv. fst kv = k) al = []"
      by (simp add: filter_empty_conv)
    with True show ?thesis by simp
  next
    case False
    with Cons show ?thesis by (cases x) auto
  qed
qed

lemma wrapped_distinct:
  assumes w: "wrap_nodes i cs = (cs', n)"
      and fresh: "\<forall>e \<in> set (felems cs). name e \<noteq> text_tag \<and> distinct (map fst (attrs_of e))"
      and e: "e \<in> set (felems cs')"
  shows "distinct (map fst (attrs_of e))"
proof (cases "name e = text_tag")
  case True
  with e have "e \<in> set (filter (\<lambda>e. name e = text_tag) (felems cs'))" by simp
  also have "\<dots> = set (map (\<lambda>(j, ks). wrapper j ks)
                  (enumerate i (filter (\<lambda>ks. strip (snd ks) \<noteq> []) (fstrings cs))))"
    using wrap_nodes_wrappers[OF w] fresh by simp
  finally show ?thesis by (auto simp: wrapper_def)
next
  case False
  with e have "(name e, attrs_of e) \<in>
      set (map (\<lambda>e. (name e, attrs_of e)) (filter (\<lambda>e. name e \<noteq> text_tag) (felems cs')))"
    by auto
  also have "\<dots> = set (map (\<lambda>e. (name e, attrs_of e)) (felems cs))"
    using wrap_nodes_others[OF w] fresh by simp
  finally show ?thesis using fresh by auto
qed

lemma seq_value_inj: "inj seq_value"
  by (auto simp: inj_def seq_value_def dest: string_of_nat_inj)

lemma without_id_wrapper:
  assumes "without_id e = wrapper j (k, s)"
  shows "name e = text_tag" and "AList.delete id_attr (attrs_of e) = [(seq_attr, Str (seq_value j))]"
    and "children e = [Text k s]"
proof -
  from assms obtain t a cs where e: "e = Element t a cs"
    by (cases e) (auto simp: wrapper_def)
  from assms e have t: "t = text_tag" and a: "AList.delete id_attr a = [(seq_attr, Str (seq_value j))]"
    and c: "map without_id cs = [Text k s]"
    by (simp_all add: wrapper_def)
  from c obtain c' where c': "cs = [c']" "without_id c' = Text k s" by auto
  from c'(2) have "c' = Text k s" by (cases c') auto
  with e t a c' show "name e = text_tag"
    and "AList.delete id_attr (attrs_of e) = [(seq_attr, Str (seq_value j))]"
    and "children e = [Text k s]"
    by simp_all
qed

lemma addressing_parts:
  assumes "fresh_snapshot soup"
  defines "R \<equiv> label_elements (wrap_text_nodes soup)"
  shows "map without_id (filter (\<lambda>e. name e = text_tag) (find_all R)) =
           map (\<lambda>(i, ks). wrapper i ks) (enumerate 1 (nonempty_strings soup))"
    and "unwrapped R = []"
    and "map (\<lambda>e. get e id_attr) (find_all R) =
           map (\<lambda>i. Some (Str (id_value i))) [0..<length (find_all R)]"
    and "distinct (map (\<lambda>e. get e id_attr) (find_all R))"
    and "list_all (\<lambda>e. length (filter (\<lambda>kv. fst kv = id_attr) (attrs_of e)) = 1) (find_all R)"
    and "map (\<lambda>e. (name e, AList.delete id_attr (attrs_of e)))
           (filter (\<lambda>e. name e \<noteq> text_tag) (find_all R)) =
         map (\<lambda>e. (name e, AList.delete id_attr (attrs_of e))) (find_all soup)"
proof -
  obtain W k where W: "wrap_nodes 1 (children soup) = (W, k)" by fastforce
  obtain L n where L: "label_nodes 0 W = (L, n)" by fastforce
  have R: "R = Element (name soup) (attrs_of soup) L"
    by (simp add: R_def label_elements_def wrap_text_nodes_def W[unfolded One_nat_def] L)
  have fa: "find_all R = felems L" by (simp add: R find_all_def felems_def)
  have fresh: "\<forall>e \<in> set (felems (children soup)).
                 name e \<noteq> text_tag \<and> distinct (map fst (attrs_of e))"
    and root: "name soup \<noteq> text_tag"
    using assms(1) by (auto simp: fresh_snapshot_def find_all_def felems_def list_all_iff)
  note wid = without_id_eq_forest[OF label_nodes_without_id[OF L]]
  have wr: "without_id (wrapper j ks) = wrapper j ks" for j ks
    by (simp add: wrapper_def id_attr_def seq_attr_def)
  have "map without_id (filter (\<lambda>e. name e = text_tag) (felems L)) =
        map without_id (map (\<lambda>(j, ks). wrapper j ks)
          (enumerate 1 (filter (\<lambda>ks. strip (snd ks) \<noteq> []) (fstrings (children soup)))))"
    using wid(1)[of text_tag] wrap_nodes_wrappers[OF W] fresh by simp
  also have "\<dots> = map (\<lambda>(i, ks). wrapper i ks) (enumerate 1 (nonempty_strings soup))"
    by (simp add: nonempty_strings_def wr split_def)
  finally show "map without_id (filter (\<lambda>e. name e = text_tag) (find_all R)) =
           map (\<lambda>(i, ks). wrapper i ks) (enumerate 1 (nonempty_strings soup))"
    by (simp add: fa)
  show "unwrapped R = []"
    using wid(2,3) wrap_nodes_unwrapped[OF W] by (simp add: R)
  have n: "n = length (felems W)" using label_nodes_count[OF L] by simp
  have len: "length (felems L) = length (felems W)"
    using arg_cong[OF label_nodes_attrs[OF L], of length] by simp
  have at: "map attrs_of (felems L) =
     map (\<lambda>(j, e). AList.update id_attr (Str (id_value j)) (attrs_of e)) (enumerate 0 (felems W))"
    by (rule label_nodes_attrs[OF L])
  have "map (\<lambda>e. get e id_attr) (felems L) = map (\<lambda>a. map_of a id_attr) (map attrs_of (felems L))"
    by (simp add: get_def comp_def)
  also have "\<dots> = map (\<lambda>(j, e). Some (Str (id_value j))) (enumerate 0 (felems W))"
    by (simp add: at split_def update_conv')
  also have "\<dots> = map (\<lambda>i. Some (Str (id_value i))) (map fst (enumerate 0 (felems W)))"
    by (simp add: split_def comp_def del: map_fst_enumerate)
  also have "\<dots> = map (\<lambda>i. Some (Str (id_value i))) [0..<length (felems L)]"
    by (simp add: len)
  finally have ids: "map (\<lambda>e. get e id_attr) (felems L) =
      map (\<lambda>i. Some (Str (id_value i))) [0..<length (felems L)]" .
  then show "map (\<lambda>e. get e id_attr) (find_all R) =
           map (\<lambda>i. Some (Str (id_value i))) [0..<length (find_all R)]"
    by (simp add: fa)
  have "inj (\<lambda>i. Some (Str (id_value i)))"
    using id_value_inj by (auto simp: inj_def)
  then have "distinct (map (\<lambda>i. Some (Str (id_value i))) [0..<length (felems L)])"
    by (simp add: distinct_map inj_on_def inj_def)
  with ids show "distinct (map (\<lambda>e. get e id_attr) (find_all R))"
    by (simp add: fa)
  have "length (filter (\<lambda>kv. fst kv = id_attr) a) = 1" if "a \<in> set (map attrs_of (felems L))" for a
  proof -
    from that at obtain j where j: "j < length (felems W)"
      "a = AList.update id_attr (Str (id_value j)) (attrs_of (felems W ! j))"
      by (auto simp: in_set_enumerate_eq)
    define e where "e = felems W ! j"
    have e: "e \<in> set (felems W)" "a = AList.update id_attr (Str (id_value j)) (attrs_of e)"
      using j by (simp_all add: e_def)
    have "distinct (map fst (attrs_of e))"
      using wrapped_distinct[OF W fresh e(1)] .
    then have "distinct (map fst a)" unfolding e(2) by (rule distinct_update)
    moreover have "map_of a id_attr = Some (Str (id_value j))"
      by (simp add: e(2) update_conv')
    ultimately show ?thesis by (rule count_key_one)
  qed
  then show "list_all (\<lambda>e. length (filter (\<lambda>kv. fst kv = id_attr) (attrs_of e)) = 1) (find_all R)"
    by (auto simp: fa list_all_iff)
  have na: "map (\<lambda>e. (name e, AList.delete id_attr (attrs_of e))) xs =
            map (\<lambda>e. (name e, attrs_of e)) (map without_id xs)" for xs
    by (induction xs) (auto simp: comp_def, (case_tac a; simp)+)
  have fl: "map without_id (filter (\<lambda>e. name e \<noteq> text_tag) xs) =
            filter (\<lambda>e. name e \<noteq> text_tag) (map without_id xs)" for xs
    by (induction xs) auto
  have "felems (map without_id L) = felems (map without_id W)"
    using label_nodes_without_id[OF L] by simp
  then have lw: "map without_id (felems L) = map without_id (felems W)"
    by (simp add: felems_without_id)
  have "map (\<lambda>e. (name e, AList.delete id_attr (attrs_of e)))
           (filter (\<lambda>e. name e \<noteq> text_tag) (felems L)) =
        map (\<lambda>e. (name e, attrs_of e)) (filter (\<lambda>e. name e \<noteq> text_tag) (map without_id (felems L)))"
    by (simp add: na fl)
  also have "\<dots> = map (\<lambda>e. (name e, AList.delete id_attr (attrs_of e)))
                   (filter (\<lambda>e. name e \<noteq> text_tag) (felems W))"
    by (simp add: lw na fl)
  also have "\<dots> = map (\<lambda>(t, a). (t, AList.delete id_attr a))
                   (map (\<lambda>e. (name e, attrs_of e)) (filter (\<lambda>e. name e \<noteq> text_tag) (felems W)))"
    by (simp add: comp_def)
  also have "\<dots> = map (\<lambda>(t, a). (t, AList.delete id_attr a))
                   (map (\<lambda>e. (name e, attrs_of e)) (felems (children soup)))"
    using wrap_nodes_others[OF W] fresh by simp
  also have "\<dots> = map (\<lambda>e. (name e, AList.delete id_attr (attrs_of e))) (find_all soup)"
    by (simp add: comp_def find_all_def felems_def)
  finally show "map (\<lambda>e. (name e, AList.delete id_attr (attrs_of e)))
           (filter (\<lambda>e. name e \<noteq> text_tag) (find_all R)) =
         map (\<lambda>e. (name e, AList.delete id_attr (attrs_of e))) (find_all soup)"
    by (simp add: fa)
qed

lemma addressing_wrappers:
  assumes "fresh_snapshot soup"
  shows "map (\<lambda>e. (AList.delete id_attr (attrs_of e), children e))
           (filter (\<lambda>e. name e = text_tag) (find_all (address soup))) =
         map (\<lambda>(i, k, s). ([(seq_attr, Str (seq_value i))], [Text k s]))
           (enumerate 1 (nonempty_strings soup))"
proof -
  let ?ws = "filter (\<lambda>e. name e = text_tag) (find_all (address soup))"
  let ?ns = "enumerate 1 (nonempty_strings soup)"
  have eq: "map without_id ?ws = map (\<lambda>(i, ks). wrapper i ks) ?ns"
    unfolding address_def by (rule addressing_parts(1)[OF assms])
  then have len: "length ?ws = length ?ns" by (metis length_map)
  show ?thesis
  proof (rule nth_equalityI)
    show "length (map (\<lambda>e. (AList.delete id_attr (attrs_of e), children e)) ?ws) =
          length (map (\<lambda>(i, k, s). ([(seq_attr, Str (seq_value i))], [Text k s])) ?ns)"
      using len by simp
  next
    fix j assume "j < length (map (\<lambda>e. (AList.delete id_attr (attrs_of e), children e)) ?ws)"
    then have j: "j < length ?ws" by simp
    obtain i k s where n: "?ns ! j = (i, k, s)" by (metis prod_cases3)
    from eq j len have "without_id (?ws ! j) = (\<lambda>(i, ks). wrapper i ks) (?ns ! j)"
      by (metis nth_map)
    with n have "without_id (?ws ! j) = wrapper i (k, s)" by simp
    from without_id_wrapper(2,3)[OF this] n j len
    show "map (\<lambda>e. (AList.delete id_attr (attrs_of e), children e)) ?ws ! j =
          map (\<lambda>(i, k, s). ([(seq_attr, Str (seq_value i))], [Text k s])) ?ns ! j"
      by simp
  qed
qed

lemma addressing_seq_values:
  assumes "fresh_snapshot soup"
  shows "map (\<lambda>e. get e seq_attr) (filter (\<lambda>e. name e = text_tag) (find_all (address soup))) =
         map (\<lambda>i. Some (Str (seq_value i))) [1..<Suc (length (nonempty_strings soup))]"
proof -
  let ?ws = "filter (\<lambda>e. name e = text_tag) (find_all (address soup))"
  have g: "get e seq_attr = map_of (AList.delete id_attr (attrs_of e)) seq_attr" for e
    by (simp add: get_def delete_conv' id_attr_def seq_attr_def)
  have "map (\<lambda>e. get e seq_attr) ?ws =
        map (\<lambda>p. map_of (fst p) seq_attr)
          (map (\<lambda>e. (AList.delete id_attr (attrs_of e), children e)) ?ws)"
    by (simp add: g comp_def)
  also have "\<dots> = map (\<lambda>(i, ks). Some (Str (seq_value i))) (enumerate 1 (nonempty_strings soup))"
    unfolding addressing_wrappers[OF assms] by (simp add: comp_def split_def)
  also have "\<dots> = map (\<lambda>i. Some (Str (seq_value i))) (map fst (enumerate 1 (nonempty_strings soup)))"
    by (simp add: comp_def split_def del: map_fst_enumerate)
  also have "\<dots> = map (\<lambda>i. Some (Str (seq_value i))) [1..<Suc (length (nonempty_strings soup))]"
    by simp
  finally show ?thesis .
qed

lemma addressing_seq_distinct:
  assumes "fresh_snapshot soup"
  shows "distinct (map (\<lambda>e. get e seq_attr)
           (filter (\<lambda>e. name e = text_tag) (find_all (address soup))))"
proof -
  have "inj (\<lambda>i. Some (Str (seq_value i)))"
    using seq_value_inj by (auto simp: inj_def)
  then show ?thesis
    unfolding addressing_seq_values[OF assms] by (simp add: distinct_map inj_on_def inj_def)
qed

lemma addressing_scenario:
  "map (\<lambda>e. (name e, get e ''ali-tx9v8k2m4p-seq'', get e ''ali-zx9v8k2m4p''))
     (find_all (address raw_page)) =
   [(''ali-tx9v8k2m4p'', Some (Str ''qw7x_1_p9m2''), Some (Str ''q7y5n3j6h_0'')),
    (''html'', None, Some (Str ''q7y5n3j6h_1'')),
    (''head'', None, Some (Str ''q7y5n3j6h_2'')),
    (''title'', None, Some (Str ''q7y5n3j6h_3'')),
    (''ali-tx9v8k2m4p'', Some (Str ''qw7x_2_p9m2''), Some (Str ''q7y5n3j6h_4'')),
    (''script'', None, Some (Str ''q7y5n3j6h_5'')),
    (''ali-tx9v8k2m4p'', Some (Str ''qw7x_3_p9m2''), Some (Str ''q7y5n3j6h_6'')),
    (''body'', None, Some (Str ''q7y5n3j6h_7'')),
    (''ali-tx9v8k2m4p'', Some (Str ''qw7x_4_p9m2''), Some (Str ''q7y5n3j6h_8'')),
    (''h1'', None, Some (Str ''q7y5n3j6h_9'')),
    (''ali-tx9v8k2m4p'', Some (Str ''qw7x_5_p9m2''), Some (Str ''q7y5n3j6h_10'')),
    (''p'', None, Some (Str ''q7y5n3j6h_11'')),
    (''ali-tx9v8k2m4p'', Some (Str ''qw7x_6_p9m2''), Some (Str ''q7y5n3j6h_12'')),
    (''b'', None, Some (Str ''q7y5n3j6h_13'')),
    (''ali-tx9v8k2m4p'', Some (Str ''qw7x_7_p9m2''), Some (Str ''q7y5n3j6h_14'')),
    (''ali-tx9v8k2m4p'', Some (Str ''qw7x_8_p9m2''), Some (Str ''q7y5n3j6h_15'')),
    (''p'', None, Some (Str ''q7y5n3j6h_16'')),
    (''ul'', None, Some (Str ''q7y5n3j6h_17'')),
    (''li'', None, Some (Str ''q7y5n3j6h_18'')),
    (''ali-tx9v8k2m4p'', Some (Str ''qw7x_9_p9m2''), Some (Str ''q7y5n3j6h_19'')),
    (''li'', None, Some (Str ''q7y5n3j6h_20'')),
    (''ali-tx9v8k2m4p'', Some (Str ''qw7x_10_p9m2''), Some (Str ''q7y5n3j6h_21'')),
    (''li'', None, Some (Str ''q7y5n3j6h_22'')),
    (''ali-tx9v8k2m4p'', Some (Str ''qw7x_11_p9m2''), Some (Str ''q7y5n3j6h_23''))]"
  by code_simp

lemma addressing_scenario_left:
  "map (\<lambda>e. (name e, children e)) (filter (\<lambda>e. get e ''ali-tx9v8k2m4p-seq'' = None)
     (find_all (address raw_page))) ! 8 =
   (''p'', [Text NavigableString [CHR 0xA0]])"
  by code_simp

text \<open>
  C8. After \<^verbatim>\<open>_wrap_text_nodes\<close> and \<^verbatim>\<open>_label_elements\<close> have run
  once on a fresh snapshot: the tags named \<^verbatim>\<open>ali-tx9v8k2m4p\<close> of the result are,
  in document order, one for each string of the snapshot that is not empty after
  \<^verbatim>\<open>strip()\<close>; the i-th of them, counted from 1, holds the i-th such string and
  nothing else and carries, besides its identifier, the one attribute
  \<^verbatim>\<open>ali-tx9v8k2m4p-seq="qw7x_i_p9m2"\<close>; these sequence values are pairwise
  distinct; no string that is not empty is left outside a wrapper; the other tags are
  those of the snapshot, in their order, with their names and attributes; the tags of
  the result carry, in document order, the identifiers \<^verbatim>\<open>q7y5n3j6h_0\<close>,
  \<^verbatim>\<open>q7y5n3j6h_1\<close> and so on, which are pairwise distinct; and every tag has the
  identifier attribute exactly once. On the snapshot \<open>raw_page\<close>, with eleven
  strings to wrap (a doctype, a script and a comment among them) and three strings of
  white space, the tags, sequence values and identifiers are as listed.
\<close>

theorem addressing_once:
  "(fresh_snapshot soup \<longrightarrow>
      map (\<lambda>e. (AList.delete ''ali-zx9v8k2m4p'' (attrs_of e), children e))
        (filter (\<lambda>e. name e = ''ali-tx9v8k2m4p'') (find_all (address soup))) =
      map (\<lambda>(i, k, s). ([(''ali-tx9v8k2m4p-seq'', Str (''qw7x_'' @ string_of_nat i @ ''_p9m2''))],
                          [Text k s]))
        (enumerate 1 (nonempty_strings soup)) \<and>
      distinct (map (\<lambda>e. get e ''ali-tx9v8k2m4p-seq'')
        (filter (\<lambda>e. name e = ''ali-tx9v8k2m4p'') (find_all (address soup)))) \<and>
      unwrapped (address soup) = [] \<and>
      map (\<lambda>e. (name e, AList.delete ''ali-zx9v8k2m4p'' (attrs_of e)))
        (filter (\<lambda>e. name e \<noteq> ''ali-tx9v8k2m4p'') (find_all (address soup))) =
      map (\<lambda>e. (name e, AList.delete ''ali-zx9v8k2m4p'' (attrs_of e))) (find_all soup) \<and>
      map (\<lambda>e. get e ''ali-zx9v8k2m4p'') (find_all (address soup)) =
        map (\<lambda>i. Some (Str (''q7y5n3j6h_'' @ string_of_nat i)))
          [0..<length (find_all (address soup))] \<and>
      distinct (map (\<lambda>e. get e ''ali-zx9v8k2m4p'') (find_all (address soup))) \<and>
      list_all (\<lambda>e. length (filter (\<lambda>kv. fst kv = ''ali-zx9v8k2m4p'') (attrs_of e)) = 1)
        (find_all (address soup))) \<and>
   map (\<lambda>e. (name e, get e ''ali-tx9v8k2m4p-seq'', get e ''ali-zx9v8k2m4p''))
     (find_all (address raw_page)) =
   [(''ali-tx9v8k2m4p'', Some (Str ''qw7x_1_p9m2''), Some (Str ''q7y5n3j6h_0'')),
    (''html'', None, Some (Str ''q7y5n3j6h_1'')),
    (''head'', None, Some (Str ''q7y5n3j6h_2'')),
    (''title'', None, Some (Str ''q7y5n3j6h_3'')),
    (''ali-tx9v8k2m4p'', Some (Str ''qw7x_2_p9m2''), Some (Str ''q7y5n3j6h_4'')),
    (''script'', None, Some (Str ''q7y5n3j6h_5'')),
    (''ali-tx9v8k2m4p'', Some (Str ''qw7x_3_p9m2''), Some (Str ''q7y5n3j6h_6'')),
    (''body'', None, Some (Str ''q7y5n3j6h_7'')),
    (''ali-tx9v8k2m4p'', Some (Str ''qw7x_4_p9m2''), Some (Str ''q7y5n3j6h_8'')),
    (''h1'', None, Some (Str ''q7y5n3j6h_9'')),
    (''ali-tx9v8k2m4p'', Some (Str ''qw7x_5_p9m2''), Some (Str ''q7y5n3j6h_10'')),
    (''p'', None, Some (Str ''q7y5n3j6h_11'')),
    (''ali-tx9v8k2m4p'', Some (Str ''qw7x_6_p9m2''), Some (Str ''q7y5n3j6h_12'')),
    (''b'', None, Some (Str ''q7y5n3j6h_13'')),
    (''ali-tx9v8k2m4p'', Some (Str ''qw7x_7_p9m2''), Some (Str ''q7y5n3j6h_14'')),
    (''ali-tx9v8k2m4p'', Some (Str ''qw7x_8_p9m2''), Some (Str ''q7y5n3j6h_15'')),
    (''p'', None, Some (Str ''q7y5n3j6h_16'')),
    (''ul'', None, Some (Str ''q7y5n3j6h_17'')),
    (''li'', None, Some (Str ''q7y5n3j6h_18'')),
    (''ali-tx9v8k2m4p'', Some (Str ''qw7x_9_p9m2''), Some (Str ''q7y5n3j6h_19'')),
    (''li'', None, Some (Str ''q7y5n3j6h_20'')),
    (''ali-tx9v8k2m4p'', Some (Str ''qw7x_10_p9m2''), Some (Str ''q7y5n3j6h_21'')),
    (''li'', None, Some (Str ''q7y5n3j6h_22'')),
    (''ali-tx9v8k2m4p'', Some (Str ''qw7x_11_p9m2''), Some (Str ''q7y5n3j6h_23''))]"
proof -
  have lits: "text_tag = ''ali-tx9v8k2m4p''" "seq_attr = ''ali-tx9v8k2m4p-seq''"
    "id_attr = ''ali-zx9v8k2m4p''"
    "\<And>i. seq_value i = ''qw7x_'' @ string_of_nat i @ ''_p9m2''"
    "\<And>i. id_value i = ''q7y5n3j6h_'' @ string_of_nat i"
    by (simp_all add: text_tag_def seq_attr_def id_attr_def seq_value_def id_value_def)
  note parts = addressing_parts[folded address_def]
  show ?thesis
    using addressing_wrappers[of soup] addressing_seq_distinct[of soup]
      parts(2)[of soup] parts(6)[of soup] parts(3)[of soup] parts(4)[of soup] parts(5)[of soup]
      addressing_scenario
    unfolding lits by blast
qed

theorem addressing_once_witness:
  "fresh_snapshot raw_page \<and>
   map snd (nonempty_strings raw_page) =
     [''html'', ''Acme News'', ''var built = 1;'', '' masthead '', ''Acme announces a product'',
      ''The product '', ''ships'', '' today.'', ''One'', ''Two'', ''Three''] \<and>
   map children (filter (\<lambda>e. name e = ''ali-tx9v8k2m4p'') (find_all (address raw_page))) =
     [[Text Doctype ''html''], [Text NavigableString ''Acme News''],
      [Text Script ''var built = 1;''], [Text Comment '' masthead ''],
      [Text NavigableString ''Acme announces a product''],
      [Text NavigableString ''The product ''], [Text NavigableString ''ships''],
      [Text NavigableString '' today.''], [Text NavigableString ''One''],
      [Text NavigableString ''Two''], [Text NavigableString ''Three'']] \<and>
   unwrapped (address raw_page) = [] \<and>
   distinct (map (\<lambda>e. get e ''ali-zx9v8k2m4p'') (find_all (address raw_page)))"
proof -
  have f: "fresh_snapshot raw_page" by code_simp
  have n: "nonempty_strings raw_page =
     [(Doctype, ''html''), (NavigableString, ''Acme News''), (Script, ''var built = 1;''),
      (Comment, '' masthead ''), (NavigableString, ''Acme announces a product''),
      (NavigableString, ''The product ''), (NavigableString, ''ships''),
      (NavigableString, '' today.''), (NavigableString, ''One''), (NavigableString, ''Two''),
      (NavigableString, ''Three'')]"
    by code_simp
  from addressing_once[of raw_page] f
  have a: "map (\<lambda>e. (AList.delete ''ali-zx9v8k2m4p'' (attrs_of e), children e))
        (filter (\<lambda>e. name e = ''ali-tx9v8k2m4p'') (find_all (address raw_page))) =
      map (\<lambda>(i, k, s). ([(''ali-tx9v8k2m4p-seq'', Str (''qw7x_'' @ string_of_nat i @ ''_p9m2''))],
                          [Text k s]))
        (enumerate 1 (nonempty_strings raw_page))"
    and u: "unwrapped (address raw_page) = []"
    and d: "distinct (map (\<lambda>e. get e ''ali-zx9v8k2m4p'') (find_all (address raw_page)))"
    by blast+
  have "map children (filter (\<lambda>e. name e = ''ali-tx9v8k2m4p'') (find_all (address raw_page))) =
        map snd (map (\<lambda>e. (AList.delete ''ali-zx9v8k2m4p'' (attrs_of e), children e))
          (filter (\<lambda>e. name e = ''ali-tx9v8k2m4p'') (find_all (address raw_page))))"
    by (simp add: comp_def)
  also have "\<dots> = map (\<lambda>ks. [Text (fst ks) (snd ks)])
                   (map snd (enumerate 1 (nonempty_strings raw_page)))"
    unfolding a by (simp add: comp_def split_def del: map_snd_enumerate)
  also have "\<dots> = map (\<lambda>ks. [Text (fst ks) (snd ks)]) (nonempty_strings raw_page)"
    by simp
  finally have c: "map children (filter (\<lambda>e. name e = ''ali-tx9v8k2m4p'') (find_all (address raw_page))) =
     map (\<lambda>ks. [Text (fst ks) (snd ks)]) (nonempty_strings raw_page)" .
  show ?thesis using f u d unfolding c n by simp
qed

section \<open>The content body classifier\<close>

subsection \<open>Section truncation\<close>

lemma skip_element: "skip_remaining st \<Longrightarrow> process_element_recursively st us p e = Inr st"
  by (cases e) simp_all

lemma skip_children: "skip_remaining st \<Longrightarrow> process_children st us p i cs = Inr st"
proof (induction cs arbitrary: i)
  case Nil
  then show ?case by simp
next
  case (Cons c cs)
  then show ?case by (cases c) (simp_all add: skip_element del: process_element_recursively.simps)
qed

lemma skip_main_loop: "skip_remaining st \<Longrightarrow> main_loop st rest = Inr st"
proof (induction rest)
  case Nil
  then show ?case by simp
next
  case (Cons l rest)
  then show ?case by (simp add: skip_element)
qed

lemma main_loop_append:
  "main_loop st (xs @ ys) =
     (case main_loop st xs of Inl e \<Rightarrow> Inl e | Inr st' \<Rightarrow> main_loop st' ys)"
  by (induction st xs rule: main_loop.induct) (auto split: sum.splits)

text \<open>
  C5. Once the direct text of an element is classified as a section boundary (the
  element is reached with \<^verbatim>\<open>skip_remaining\<close> off, has not been processed, and
  \<^verbatim>\<open>_is_boilerplate\<close> reports a section header for its direct text), the
  element itself gets no label, \<^verbatim>\<open>skip_remaining\<close> is on, and every later
  step of the walk (a call of \<^verbatim>\<open>process_element_recursively\<close>, the loop over
  the children of an element with its table branch, the loop over the target tags with
  its table branch) returns the state as it is: no content, table-header or table-cell
  label is added.
\<close>

theorem section_truncation:
  assumes "\<not> skip_remaining st"
      and "get (Element t a ds) id_attr \<notin> set (processed_elements st)"
      and "get_direct_text (Element t a ds) \<noteq> []"
      and "is_boilerplate (get_direct_text (Element t a ds))
             \<lparr>here = Element t a ds, ups = us, path = p\<rparr> = Inr (bp, True)"
  shows "\<exists>st'. process_element_recursively st us p (Element t a ds) = Inr st' \<and>
               skip_remaining st' \<and> labels st' = labels st \<and>
               (\<forall>us' p' e i cs rest.
                  process_element_recursively st' us' p' e = Inr st' \<and>
                  process_children st' us' p' i cs = Inr st' \<and>
                  main_loop st' rest = Inr st')"
proof -
  let ?st' = "st\<lparr>processed_elements := get (Element t a ds) id_attr # processed_elements st,
                 skip_remaining := True\<rparr>"
  have "process_element_recursively st us p (Element t a ds) = Inr ?st'"
    using assms by (simp add: Let_def)
  moreover have "skip_remaining ?st'" by simp
  moreover have "labels ?st' = labels st" by simp
  ultimately show ?thesis
    using skip_element skip_children skip_main_loop by blast
qed


lemma header_text_in_page: "header_text \<in> set (soup_locs release_page)"
  by code_simp

lemma release_walk:
  "map_option (map_sum id (\<lambda>st. (skip_remaining st, labels st)))
     (map_option mark_content_walk (find_article release_page)) =
   Some (Inr (True,
     [([0, 0, 0, 0, 0], content_type, Str ''qw7x_article_content_p9m2''),
      ([0, 0, 0, 0, 0], content_tag, Str ''ali-tx9v8k2m4p''),
      ([0, 0, 0, 1, 0, 0], content_type, Str ''qw7x_table_header_p9m2''),
      ([0, 0, 0, 1, 0, 1], content_type, Str ''qw7x_table_cell_p9m2''),
      ([0, 0, 0, 1], content_type, Str ''qw7x_article_table_p9m2'')]))"
  by code_simp

theorem section_truncation_witness:
  "\<not> skip_remaining initial_state \<and>
   get (here header_text) id_attr \<notin> set (processed_elements initial_state) \<and>
   get_direct_text (here header_text) = ''Forward-Looking Statements'' \<and>
   is_boilerplate ''Forward-Looking Statements'' header_text = Inr (False, True) \<and>
   process_element_recursively initial_state (ups header_text) (path header_text)
     (here header_text) = Inr halted_state \<and>
   map (\<lambda>l. name (here l)) release_targets = [''p'', ''table'', ''p'', ''p'', ''table''] \<and>
   main_loop halted_state release_targets = Inr halted_state"
proof -
  let ?t = "''ali-tx9v8k2m4p''"
  let ?a = "[(''ali-tx9v8k2m4p-seq'', Str ''qw7x_4_p9m2''), (''ali-zx9v8k2m4p'', Str ''q7y5n3j6h_13'')]"
  let ?ds = "[Text NavigableString ''Forward-Looking Statements'']"
  have h: "here header_text = Element ?t ?a ?ds" by (simp add: header_text_def)
  have l: "header_text = \<lparr>here = Element ?t ?a ?ds, ups = ups header_text, path = path header_text\<rparr>"
    by (simp add: header_text_def)
  have 1: "\<not> skip_remaining initial_state" by (simp add: initial_state_def)
  have 2: "get (Element ?t ?a ?ds) id_attr \<notin> set (processed_elements initial_state)"
    by (simp add: initial_state_def)
  have 3: "get_direct_text (Element ?t ?a ?ds) = ''Forward-Looking Statements''" by code_simp
  have 4: "is_boilerplate ''Forward-Looking Statements'' header_text = Inr (False, True)"
    by code_simp
  have 5: "process_element_recursively initial_state (ups header_text) (path header_text)
     (Element ?t ?a ?ds) = Inr halted_state"
    by code_simp
  have 6: "map (\<lambda>l. name (here l)) release_targets = [''p'', ''table'', ''p'', ''p'', ''table'']"
    by code_simp
  from section_truncation[where st = initial_state and t = ?t and a = ?a and ds = ?ds
      and bp = False and us = "ups header_text" and p = "path header_text"]
    1 2 3 4 l
  obtain st' where st': "process_element_recursively initial_state (ups header_text)
        (path header_text) (Element ?t ?a ?ds) = Inr st'"
      "\<forall>us' p' e i cs rest. process_element_recursively st' us' p' e = Inr st' \<and>
                  process_children st' us' p' i cs = Inr st' \<and>
                  main_loop st' rest = Inr st'"
    by auto
  from st'(1) 5 have "st' = halted_state" by simp
  with st'(2) have "main_loop halted_state release_targets = Inr halted_state" by blast
  with 1 2 3 4 5 6 h show ?thesis by simp
qed

text \<open>
  Two boundary cases of the classification. A header written with a no-break space is
  a strict section header, since \<^verbatim>\<open>\s\<close> matches that character. A comment
  that reads like a header is not classified at all: its wrapper has no direct text, and
  the walk goes on to label the text after it.
\<close>

lemma nbsp_header_is_boundary:
  "is_boilerplate (''Forward'' @ [CHR 0xA0] @ ''Looking Statements'')
     (plain_text (''Forward'' @ [CHR 0xA0] @ ''Looking Statements'')) = Inr (False, True)"
  by code_simp

lemma comment_has_no_direct_text:
  "get_direct_text (Element ''ali-tx9v8k2m4p'' [] [Text Comment ''About Acme'']) = [] \<and>
   map_option (map_sum id (\<lambda>st. (skip_remaining st, labels st)))
     (map_option mark_content_walk (find_article commented_page)) =
   Some (Inr (False,
     [([0, 0, 0, 0, 1], content_type, Str ''qw7x_article_content_p9m2''),
      ([0, 0, 0, 0, 1], content_tag, Str ''ali-tx9v8k2m4p'')]))"
  by code_simp

subsection \<open>The bold test of the lenient match\<close>

text \<open>
  C6 at its failing input. The text matches a lenient pattern only, and its parent, a
  paragraph, has a class. The bold test reads the class of the parent for its truth
  value and then iterates over the class of the element, the text wrapper, which has
  none: \<^verbatim>\<open>_is_boilerplate\<close> raises a TypeError, whether the class of the
  paragraph holds \<^verbatim>\<open>bold\<close> or not, and the walk of the page ends with it.
\<close>

theorem lenient_class_failing_input:
  "is_boilerplate ''Learn more about our company'' passing_mention
     = Inl (OtherException none_not_iterable) \<and>
   is_boilerplate ''Learn more about our company'' bold_class_mention
     = Inl (OtherException none_not_iterable) \<and>
   map_option mark_content_walk (find_article classed_page)
     = Some (Inl (OtherException none_not_iterable))"
  by code_simp


section \<open>The title\<close>

lemma first_max_mem: "first_max f b xs \<in> set (b # xs)"
  by (induction xs arbitrary: b) (auto split: if_splits)

lemma first_max_ge: "x \<in> set (b # xs) \<Longrightarrow> f x \<le> f (first_max f b xs)"
proof (induction xs arbitrary: b x)
  case Nil
  then show ?case by simp
next
  case (Cons y ys)
  have "f x \<le> f (first_max f (if f y > f b then y else b) ys)"
  proof (cases "x \<in> set ys")
    case True
    then show ?thesis using Cons.IH by simp
  next
    case False
    with Cons.prems have "x = b \<or> x = y" by auto
    then have "f x \<le> f (if f y > f b then y else b)" by auto
    also have "\<dots> \<le> f (first_max f (if f y > f b then y else b) ys)"
      using Cons.IH[of "if f y > f b then y else b" "if f y > f b then y else b"] by simp
    finally show ?thesis .
  qed
  then show ?case by simp
qed

lemma find_first_felems: "find_first P cs = Some e \<Longrightarrow> e \<in> set (felems cs)"
  by (induction P cs rule: find_first.induct)
     (auto simp: felems_simps split: if_splits option.splits)

lemma felems_children:
  assumes "a \<in> set (felems cs)" "e \<in> set (felems (children a))"
  shows "e \<in> set (felems cs)"
proof -
  from assms(2) have "e \<in> set (elems a)"
    by (cases a) (auto simp: felems_def)
  with assms(1) show ?thesis by (auto simp: felems_def dest: elems_trans)
qed

lemma candidate_in_soup:
  assumes "c \<in> set (title_candidates jl soup)"
  shows "element c \<in> set (find_all soup) \<and> ali_id c = get (element c) id_attr"
proof -
  have fa: "find_all soup = felems (children soup)" by (simp add: find_all_def felems_def)
  have og: "element c \<in> set (find_all soup) \<and> ali_id c = get (element c) id_attr"
    if "c \<in> set (from_og soup)"
    using that unfolding from_og_def fa
    by (auto split: option.splits dest: find_first_felems find_first_felems[OF sym])
  have sc: "element c \<in> set (find_all soup) \<and> ali_id c = get (element c) id_attr"
    if "c \<in> set (from_schema jl soup)"
    using that unfolding from_schema_def fa
    by (auto split: option.splits json.splits dest: find_first_felems find_first_felems[OF sym])
  have ar: "element c \<in> set (find_all soup) \<and> ali_id c = get (element c) id_attr"
    if "c \<in> set (from_article soup)"
  proof -
    from that obtain article h1 where
      f: "find_first (is_named ''article'') (children soup) = Some article"
         "find_first (is_named ''h1'') (children article) = Some h1"
         "c = candidate_of_heading h1"
      unfolding from_article_def by (auto split: option.splits) metis
    from f(1,2) have "h1 \<in> set (felems (children soup))"
      by (metis find_first_felems felems_children)
    with f(3) show ?thesis by (simp add: fa candidate_of_heading_def)
  qed
  have pg: "element c \<in> set (find_all soup) \<and> ali_id c = get (element c) id_attr"
    if "c \<in> set (from_page soup)"
    using that unfolding from_page_def fa
    by (auto split: option.splits simp: candidate_of_heading_def dest: find_first_felems find_first_felems[OF sym])
  from assms og sc ar pg show ?thesis
    unfolding title_candidates_def Let_def by (auto split: if_splits)
qed

lemma upd_first_append:
  "upd_first Q u (xs @ ys) =
     (if list_ex Q xs then upd_first Q u xs @ ys else xs @ upd_first Q u ys)"
  by (induction xs) auto

lemma apply_first_none_attrs:
  "apply_first (\<lambda>e. Q (attrs_of e)) f cs = None \<Longrightarrow> \<not> list_ex Q (eattrs cs)"
  by (induction "\<lambda>e. Q (attrs_of e)" f cs rule: apply_first.induct)
     (auto simp: eattrs_simps nattrs_simps split: if_splits option.splits)

lemma apply_first_some_attrs:
  "apply_first (\<lambda>e. Q (attrs_of e)) f cs = Some cs' \<Longrightarrow> list_ex Q (eattrs cs)"
  by (induction "\<lambda>e. Q (attrs_of e)" f cs arbitrary: cs' rule: apply_first.induct)
     (auto simp: eattrs_simps nattrs_simps split: if_splits option.splits)

lemma apply_first_upd:
  assumes "apply_first (\<lambda>e. Q (attrs_of e)) (\<lambda>e. Some (set_attr k v e)) cs = Some cs'"
  shows "eattrs cs' = upd_first Q (AList.update k v) (eattrs cs) \<and>
         map name (felems cs') = map name (felems cs)"
  using assms
proof (induction "\<lambda>e. Q (attrs_of e)" "\<lambda>e. Some (set_attr k v e)" cs arbitrary: cs'
        rule: apply_first.induct)
  case 1
  then show ?case by simp
next
  case (2 k s cs)
  then show ?case by (auto simp: eattrs_simps nattrs_simps felems_simps)
next
  case (3 t a ds cs)
  show ?case
  proof (cases "Q a")
    case True
    with "3.prems" show ?thesis
      by (auto simp: eattrs_simps nattrs_simps felems_simps set_attr_def)
  next
    case False
    show ?thesis
    proof (cases "apply_first (\<lambda>e. Q (attrs_of e)) (\<lambda>e. Some (set_attr k v e)) ds")
      case None
      with False "3.prems" obtain cs'' where
        c: "apply_first (\<lambda>e. Q (attrs_of e)) (\<lambda>e. Some (set_attr k v e)) cs = Some cs''"
           "cs' = Element t a ds # cs''" by auto
      from apply_first_none_attrs[OF None] have "\<not> list_ex Q (eattrs ds)" .
      with "3.hyps"(2)[OF _ None c(1)] False c(2) show ?thesis
        by (simp add: eattrs_simps nattrs_simps felems_simps upd_first_append)
    next
      case (Some ds')
      with False "3.prems" have c: "cs' = Element t a ds' # cs" by simp
      from apply_first_some_attrs[OF Some] have "list_ex Q (eattrs ds)" .
      with "3.hyps"(1)[OF _ Some] False c show ?thesis
        by (simp add: eattrs_simps nattrs_simps felems_simps upd_first_append)
    qed
  qed
qed

lemma upd_first_distinct:
  assumes "distinct (map g xs)"
  shows "upd_first (\<lambda>x. g x = w) u xs = map (\<lambda>x. if g x = w then u x else x) xs"
  using assms
proof (induction xs)
  case Nil
  then show ?case by simp
next
  case (Cons x xs)
  show ?case
  proof (cases "g x = w")
    case True
    from Cons.prems have "g x \<notin> g ` set xs" by simp
    with True have "\<forall>y \<in> set xs. g y \<noteq> w" by (metis imageI)
    then have "map (\<lambda>x. if g x = w then u x else x) xs = xs"
      by (induction xs) auto
    with True show ?thesis by simp
  next
    case False
    with Cons show ?thesis by simp
  qed
qed


lemma valid_titles_filter:
  "valid_titles cs = Inr vs \<Longrightarrow>
   vs = filter (\<lambda>c. json_truthy (cand_text c) \<and> text_length c < 200) cs"
proof (induction cs arbitrary: vs)
  case Nil
  then show ?case by simp
next
  case (Cons c cs)
  show ?case
  proof (cases "json_truthy (cand_text c)")
    case False
    with Cons show ?thesis by simp
  next
    case True
    with Cons.prems obtain n ws where
      n: "json_len (cand_text c) = Inr n" and ws: "valid_titles cs = Inr ws"
      and vs: "vs = (if n < 200 then c # ws else ws)"
      by (auto split: sum.splits)
    from n have "text_length c = n" by (simp add: text_length_def)
    with True vs Cons.IH[OF ws] show ?thesis by simp
  qed
qed

lemma valid_titles_raises:
  "valid_titles cs = Inl e \<Longrightarrow>
   \<exists>c \<in> set cs. json_truthy (cand_text c) \<and> json_len (cand_text c) = Inl e"
proof (induction cs)
  case Nil
  then show ?case by simp
next
  case (Cons c cs)
  then show ?case by (auto split: if_splits sum.splits)
qed

lemma valid_titles_returns:
  "\<forall>c \<in> set cs. json_truthy (cand_text c) \<longrightarrow> (\<exists>n. json_len (cand_text c) = Inr n) \<Longrightarrow>
   \<exists>vs. valid_titles cs = Inr vs"
proof (induction cs)
  case Nil
  then show ?case by simp
next
  case (Cons c cs)
  then show ?case by (auto split: if_splits sum.splits)
qed

text \<open>
  What \<^verbatim>\<open>_mark_title\<close> does when no candidate text makes \<^verbatim>\<open>len\<close>
  raise, on a soup whose identifiers are pairwise distinct: with a valid candidate (a
  text that is true and of length below 200), it chooses a valid candidate whose text
  is at least as long as that of every valid candidate, and the title label is put on
  exactly the tag of that candidate; with none, the soup is unchanged.
\<close>

lemma mark_title_general:
  assumes d: "distinct (map (\<lambda>e. get e id_attr) (find_all soup))"
      and r: "valid_titles (title_candidates jl soup) = Inr vs"
      and v: "vs \<noteq> []"
  shows "\<exists>best. best \<in> set (title_candidates jl soup) \<and>
           json_truthy (cand_text best) \<and> text_length best < 200 \<and>
           (\<forall>c \<in> set (title_candidates jl soup).
              json_truthy (cand_text c) \<and> text_length c < 200 \<longrightarrow>
              text_length c \<le> text_length best) \<and>
           element best \<in> set (find_all soup) \<and>
           get (element best) id_attr = ali_id best \<and>
           (\<exists>soup'. mark_title jl soup = Inr soup' \<and>
              map name (find_all soup') = map name (find_all soup) \<and>
              map attrs_of (find_all soup') =
                map (\<lambda>e. if get e id_attr = ali_id best
                          then AList.update title_type (Str title_value) (attrs_of e)
                          else attrs_of e) (find_all soup))"
proof -
  from v obtain c cs where cs: "vs = c # cs" by (cases vs) auto
  define best where "best = first_max text_length c cs"
  note vf = valid_titles_filter[OF r]
  have mem: "best \<in> set vs"
    unfolding cs best_def by (rule first_max_mem)
  have mx: "\<forall>x \<in> set vs. text_length x \<le> text_length best"
    unfolding cs best_def using first_max_ge[of _ c cs text_length] by blast
  from mem vf have bc: "best \<in> set (title_candidates jl soup)"
    and bv: "json_truthy (cand_text best)" "text_length best < 200" by auto
  from mx vf have mx': "\<forall>c \<in> set (title_candidates jl soup).
              json_truthy (cand_text c) \<and> text_length c < 200 \<longrightarrow>
              text_length c \<le> text_length best" by auto
  from candidate_in_soup[OF bc]
  have el: "element best \<in> set (find_all soup)" and id: "get (element best) id_attr = ali_id best"
    by simp_all
  have fa: "find_all x = felems (children x)" for x by (simp add: find_all_def felems_def)
  let ?Q = "\<lambda>a. map_of a id_attr = ali_id best"
  have P: "(\<lambda>e. get e id_attr = ali_id best) = (\<lambda>e. ?Q (attrs_of e))"
    by (simp add: get_def)
  from el id have ex: "list_ex ?Q (eattrs (children soup))"
    by (auto simp: list_ex_iff eattrs_elems fa felems_def get_def)
  obtain cs' where ap: "apply_first (\<lambda>e. ?Q (attrs_of e))
        (\<lambda>e. Some (set_attr title_type (Str title_value) e)) (children soup) = Some cs'"
    using ex apply_first_none_attrs[of ?Q _ "children soup"]
    by (cases "apply_first (\<lambda>e. ?Q (attrs_of e))
        (\<lambda>e. Some (set_attr title_type (Str title_value) e)) (children soup)") auto
  define soup' where "soup' = Element (name soup) (attrs_of soup) cs'"
  have mt: "mark_title jl soup = Inr soup'"
    by (simp add: mark_title_def r cs best_def[symmetric] label_title_def P ap soup'_def)
  from apply_first_upd[OF ap]
  have ea: "eattrs cs' = upd_first ?Q (AList.update title_type (Str title_value)) (eattrs (children soup))"
    and nm: "map name (felems cs') = map name (felems (children soup))" by simp_all
  have dd: "distinct (map (\<lambda>a. map_of a id_attr) (eattrs (children soup)))"
    using d by (simp add: fa eattrs_elems felems_def get_def comp_def)
  have "map attrs_of (find_all soup') = eattrs cs'"
    by (simp add: soup'_def fa eattrs_elems felems_def)
  also have "\<dots> = map (\<lambda>a. if map_of a id_attr = ali_id best
                       then AList.update title_type (Str title_value) a else a) (eattrs (children soup))"
    unfolding ea by (rule upd_first_distinct[OF dd])
  also have "\<dots> = map (\<lambda>e. if get e id_attr = ali_id best
                       then AList.update title_type (Str title_value) (attrs_of e)
                       else attrs_of e) (find_all soup)"
    by (simp add: fa eattrs_elems felems_def get_def comp_def)
  finally have at: "map attrs_of (find_all soup') =
             map (\<lambda>e. if get e id_attr = ali_id best
                       then AList.update title_type (Str title_value) (attrs_of e)
                       else attrs_of e) (find_all soup)" .
  have "map name (find_all soup') = map name (find_all soup)"
    using nm by (simp add: soup'_def fa)
  with mt bc bv mx' el id at show ?thesis by blast
qed

lemma mark_title_nothing:
  "valid_titles (title_candidates jl soup) = Inr [] \<Longrightarrow> mark_title jl soup = Inr soup"
  by (simp add: mark_title_def)

text \<open>
  The page of the scenario, with an Open Graph title of 50 characters and an article
  \<^verbatim>\<open>h1\<close> of 80: the \<^verbatim>\<open>h1\<close> is the one tag that carries the label.
\<close>

lemma title_scenario:
  "map (\<lambda>c. (name (element c), cand_text c)) (title_candidates no_json title_page) =
     [(''meta'', JString og_text), (''h1'', JString h1_text)] \<and>
   length og_text = 50 \<and> length h1_text = 80 \<and>
   map_sum id (\<lambda>soup'. map (\<lambda>e. (name e, get e title_type))
        (filter (\<lambda>e. get e title_type \<noteq> None) (find_all soup')))
     (mark_title no_json title_page) =
     Inr [(''h1'', Some (Str title_value))]"
  by code_simp

text \<open>
  C7 at its failing input: the page of the scenario with one more tag in its head, a
  JSON-LD script whose headline is the number 2024. The Open Graph title and the
  \<^verbatim>\<open>h1\<close> are candidates with a text that is not empty and shorter than 200
  characters, so the claim has the \<^verbatim>\<open>h1\<close> labeled, as on the page without
  the script. The number is true and has no length: \<^verbatim>\<open>_mark_title\<close> raises the
  TypeError of \<^verbatim>\<open>len\<close> and labels nothing.
\<close>

theorem numeric_headline_failing_input:
  "map (\<lambda>c. (name (element c), cand_text c)) (title_candidates numeric_loads numeric_page) =
     [(''meta'', JString og_text), (''script'', JInt 2024), (''h1'', JString h1_text)] \<and>
   length og_text = 50 \<and> length h1_text = 80 \<and>
   mark_title numeric_loads numeric_page =
     Inl (OtherException (''object of type '' @ [CHR 0x27] @ ''int'' @ [CHR 0x27] @ '' has no len()''))"
  by code_simp


section \<open>The date: which candidate is labeled\<close>

lemma first_max_map: "first_max f (g b) (map g xs) = g (first_max (\<lambda>x. f (g x)) b xs)"
  by (induction xs arbitrary: b) auto

lemma first_max_split:
  "\<exists>pre post. b # xs = pre @ first_max f b xs # post \<and>
     (\<forall>x \<in> set pre. f x < f (first_max f b xs)) \<and>
     (\<forall>x \<in> set post. f x \<le> f (first_max f b xs))"
proof (induction xs arbitrary: b)
  case Nil
  have "[b] = [] @ b # []" by simp
  then show ?case by (metis empty_iff first_max.simps(1) list.set(1))
next
  case (Cons x xs)
  let ?b = "if f x > f b then x else b"
  let ?r = "first_max f ?b xs"
  from Cons[of ?b] obtain pre post where
    s: "?b # xs = pre @ ?r # post" and
    lt: "\<forall>y \<in> set pre. f y < f ?r" and le: "\<forall>y \<in> set post. f y \<le> f ?r"
    by blast
  have r: "first_max f b (x # xs) = ?r" by simp
  have ge: "f ?b \<le> f ?r" using first_max_ge[of ?b ?b xs f] by simp
  show ?case
  proof (cases "f x > f b")
    case True
    then have "b # x # xs = (b # pre) @ ?r # post" using s by simp
    moreover have "\<forall>y \<in> set (b # pre). f y < f ?r" using lt ge True by auto
    ultimately show ?thesis unfolding r using le by blast
  next
    case False
    then have s': "b # xs = pre @ ?r # post" using s by simp
    show ?thesis
    proof (cases pre)
      case Nil
      then have "b # x # xs = [] @ ?r # (x # xs)" and "?r = b" and "post = xs" using s' by auto
      moreover have "\<forall>y \<in> set (x # xs). f y \<le> f ?r"
        using le False \<open>?r = b\<close> \<open>post = xs\<close> by auto
      ultimately show ?thesis unfolding r by (metis empty_iff list.set(1))
    next
      case (Cons p pre')
      then have pb: "p = b" and xs: "xs = pre' @ ?r # post" using s' by auto
      have "b # x # xs = (b # x # pre') @ ?r # post" using xs by simp
      moreover have "\<forall>y \<in> set (b # x # pre'). f y < f ?r"
        using lt Cons pb False by (auto simp: not_less) 
      ultimately show ?thesis unfolding r using le by blast
    qed
  qed
qed

lemma sorted_wrt_concat_map:
  "sorted_wrt (\<lambda>x y. \<forall>a \<in> set (f x). \<forall>b \<in> set (f y). R a b) xs \<Longrightarrow>
   (\<forall>x \<in> set xs. sorted_wrt R (f x)) \<Longrightarrow> sorted_wrt R (concat (map f xs))"
  by (induction xs) (auto simp: sorted_wrt_append)

lemma sorted_wrt_enumerate: "sorted_wrt (\<lambda>x y. fst x < fst y) (enumerate n xs)"
  by (induction xs arbitrary: n) (auto simp: in_set_enumerate_eq)

lemma scan_pattern_mem:
  "((p, n), c) \<in> set (scan_pattern lib soup ip) \<Longrightarrow>
   p = fst ip \<and> n < length (text_nodes soup) \<and>
   date_candidate_of lib soup (snd ip) (text_nodes soup ! n) = Some c"
  by (auto simp: scan_pattern_def in_set_enumerate_eq split: option.splits)

lemma scan_pattern_sorted:
  "sorted_wrt (\<lambda>a b. snd (fst a) < snd (fst b)) (scan_pattern lib soup ip)"
  unfolding scan_pattern_def
  by (rule sorted_wrt_concat_map[OF sorted_wrt_mono_rel[OF _ sorted_wrt_enumerate]])
     (auto split: option.splits)

lemma scan_dates_mem:
  "((p, n), c) \<in> set (scan_dates lib soup) \<Longrightarrow>
   p < length date_patterns \<and> n < length (text_nodes soup) \<and>
   date_candidate_of lib soup (date_patterns ! p) (text_nodes soup ! n) = Some c"
  by (auto simp: scan_dates_def in_set_enumerate_eq dest!: scan_pattern_mem)

lemma scan_dates_sorted:
  "sorted_wrt (\<lambda>a b. scanned_before (fst a) (fst b)) (scan_dates lib soup)"
  unfolding scan_dates_def
proof (rule sorted_wrt_concat_map[OF sorted_wrt_mono_rel[OF _ sorted_wrt_enumerate]])
  fix x y :: "nat \<times> rx"
  assume "fst x < fst y"
  then show "\<forall>a\<in>set (scan_pattern lib soup x). \<forall>b\<in>set (scan_pattern lib soup y).
       scanned_before (fst a) (fst b)"
    using scan_pattern_mem[of _ _ _ lib soup] by (fastforce simp: scanned_before_def)
next
  show "\<forall>x\<in>set (enumerate 0 date_patterns).
       sorted_wrt (\<lambda>a b. scanned_before (fst a) (fst b)) (scan_pattern lib soup x)"
  proof
    fix x assume "x \<in> set (enumerate 0 date_patterns)"
    show "sorted_wrt (\<lambda>a b. scanned_before (fst a) (fst b)) (scan_pattern lib soup x)"
    proof (rule sorted_wrt_mono_rel[OF _ scan_pattern_sorted])
      fix a b
      assume a: "a \<in> set (scan_pattern lib soup x)" and b: "b \<in> set (scan_pattern lib soup x)"
        and lt: "snd (fst a) < snd (fst b)"
      have "fst (fst a) = fst x" using scan_pattern_mem[of "fst (fst a)" "snd (fst a)" "snd a"] a
        by simp
      moreover have "fst (fst b) = fst x"
        using scan_pattern_mem[of "fst (fst b)" "snd (fst b)" "snd b"] b by simp
      ultimately show "scanned_before (fst a) (fst b)" using lt by (simp add: scanned_before_def)
    qed
  qed
qed

lemma date_candidate_place:
  "date_candidate_of lib soup r l = Some c \<Longrightarrow> cand_place c = path l"
  by (auto simp: date_candidate_of_def Let_def split: option.splits if_splits)


lemma mark_date_choice:
  assumes "meta_date lib soup = None" "schema_date lib soup = None" "scan_dates lib soup \<noteq> []"
  shows "\<exists>k best. (k, best) \<in> set (scan_dates lib soup) \<and>
           mark_date_labels lib soup = date_labels lib (cand_place best) (cand_date best) \<and>
           fst k < length date_patterns \<and> snd k < length (text_nodes soup) \<and>
           path (text_nodes soup ! snd k) = cand_place best \<and>
           (\<forall>(k', c) \<in> set (scan_dates lib soup).
              cand_score c \<le> cand_score best \<and>
              (cand_score c = cand_score best \<longrightarrow> k' = k \<or> scanned_before k k'))"
proof -
  from assms(3) obtain b xs where bx: "scan_dates lib soup = b # xs" by (cases "scan_dates lib soup") auto
  let ?f = "\<lambda>kc. cand_score (snd kc)"
  let ?r = "first_max ?f b xs"
  from first_max_split[of b xs ?f] obtain pre post where
    s: "b # xs = pre @ ?r # post" and
    lt: "\<forall>x \<in> set pre. ?f x < ?f ?r" and le: "\<forall>x \<in> set post. ?f x \<le> ?f ?r"
    by blast
  have labels: "mark_date_labels lib soup = date_labels lib (cand_place (snd ?r)) (cand_date (snd ?r))"
    using assms(1,2) bx first_max_map[of cand_score snd b xs]
    by (simp add: mark_date_labels_def candidate_dates_def Let_def)
  have mem: "(fst ?r, snd ?r) \<in> set (scan_dates lib soup)"
    using first_max_mem[of ?f b xs] bx by simp
  from scan_dates_mem[of "fst (fst ?r)" "snd (fst ?r)" "snd ?r" lib soup] mem
  have k: "fst (fst ?r) < length date_patterns" "snd (fst ?r) < length (text_nodes soup)"
    and c: "date_candidate_of lib soup (date_patterns ! fst (fst ?r))
              (text_nodes soup ! snd (fst ?r)) = Some (snd ?r)"
    by simp_all
  have place: "path (text_nodes soup ! snd (fst ?r)) = cand_place (snd ?r)"
    using date_candidate_place[OF c] by simp
  have sorted: "sorted_wrt (\<lambda>a b. scanned_before (fst a) (fst b)) (pre @ ?r # post)"
    using scan_dates_sorted[of lib soup] bx s by simp
  have order: "\<forall>(k', c) \<in> set (scan_dates lib soup).
              cand_score c \<le> cand_score (snd ?r) \<and>
              (cand_score c = cand_score (snd ?r) \<longrightarrow> k' = fst ?r \<or> scanned_before (fst ?r) k')"
  proof (clarify, intro conjI impI)
    fix p n c
    assume m: "((p, n), c) \<in> set (scan_dates lib soup)"
    then show "cand_score c \<le> cand_score (snd ?r)"
      using first_max_ge[of "((p, n), c)" b xs ?f] bx by simp
    assume eq: "cand_score c = cand_score (snd ?r)"
    from m bx s have "((p, n), c) \<in> set pre \<or> ((p, n), c) = ?r \<or> ((p, n), c) \<in> set post"
      by auto
    then show "(p, n) = fst ?r \<or> scanned_before (fst ?r) (p, n)"
    proof (elim disjE)
      assume "((p, n), c) \<in> set pre"
      with lt eq show ?thesis by fastforce
    next
      assume "((p, n), c) = ?r"
      then show ?thesis by (metis fst_conv)
    next
      assume "((p, n), c) \<in> set post"
      with sorted show ?thesis by (fastforce simp: sorted_wrt_append)
    qed
  qed
  show ?thesis
    by (rule exI[of _ "fst ?r"], rule exI[of _ "snd ?r"]) (use mem labels k place order in blast)
qed

lemma mark_date_nothing:
  "meta_date lib soup = None \<Longrightarrow> schema_date lib soup = None \<Longrightarrow> scan_dates lib soup = [] \<Longrightarrow>
   mark_date lib soup = soup"
  by (simp add: mark_date_def mark_date_labels_def candidate_dates_def apply_labels_def)

subsection \<open>The page with two dates\<close>

lemma date_scenario:
  "scan_dates example_lib dated_page =
     [((0, 1), \<lparr>cand_date = 20240301, cand_place = [0, 0, 1, 0], cand_score = 0\<rparr>),
      ((2, 0), \<lparr>cand_date = 20240305, cand_place = [0, 0, 0, 0], cand_score = 0\<rparr>)]"
  by code_simp

lemma date_scenario_paths:
  "map path (text_nodes dated_page) = [[0, 0, 0, 0], [0, 0, 1, 0]]"
  by code_simp

lemma date_scenario_meta:
  "meta_date example_lib dated_page = None \<and> schema_date example_lib dated_page = None"
  by code_simp

lemma date_scenario_marked:
  "map (\<lambda>l. (get (here l) date_type, get (here l) parsed_date_attr))
     (text_nodes (mark_date example_lib dated_page)) =
     [(None, None), (Some (Str date_value), Some (Str ''2024-03-01 00:00:00''))]"
  by code_simp

text \<open>
  C4, as stated, fails. On \<open>dated_page\<close> there is no metadata date, and the two text
  nodes give one candidate each, both of score 0: the first text node of the document
  through the month-name pattern, the second through the ISO pattern. The claim names
  the first text node; \<^verbatim>\<open>_mark_date\<close> labels the second, at path \<open>[0, 0, 1, 0]\<close>,
  because the ISO pattern is scanned before the month-name pattern.
\<close>

theorem date_tie_counterexample:
  "meta_date example_lib dated_page = None \<and>
   schema_date example_lib dated_page = None \<and>
   map (\<lambda>kc. (snd (fst kc), cand_score (snd kc))) (scan_dates example_lib dated_page) =
     [(1, 0), (0, 0)] \<and>
   claimed_text_node (scan_dates example_lib dated_page) = Some 0 \<and>
   map path (text_nodes dated_page) = [[0, 0, 0, 0], [0, 0, 1, 0]] \<and>
   mark_date_labels example_lib dated_page = date_labels example_lib [0, 0, 1, 0] 20240301"
  by code_simp

text \<open>
  C4, amended. When no metadata date parses and the scan of the text nodes finds a
  candidate, \<^verbatim>\<open>_mark_date\<close> labels a candidate of the highest score, and among
  the candidates that tie for it the one found first by the scan, which goes through the
  patterns in the order ISO, slash, month name and, within a pattern, through the text
  nodes in document order: the labeled candidate comes from the earliest pattern that
  gives a tied candidate, and from the first text node of the document among those of
  that pattern. When the scan finds nothing, the soup is unchanged. On the page of the
  scenario the second text node is the one that carries the label.
\<close>

theorem date_is_first_scanned:
  "(meta_date lib soup = None \<longrightarrow> schema_date lib soup = None \<longrightarrow> scan_dates lib soup \<noteq> [] \<longrightarrow>
     (\<exists>k best. (k, best) \<in> set (scan_dates lib soup) \<and>
        mark_date_labels lib soup = date_labels lib (cand_place best) (cand_date best) \<and>
        fst k < length date_patterns \<and> snd k < length (text_nodes soup) \<and>
        path (text_nodes soup ! snd k) = cand_place best \<and>
        (\<forall>(k', c) \<in> set (scan_dates lib soup).
           cand_score c \<le> cand_score best \<and>
           (cand_score c = cand_score best \<longrightarrow> k' = k \<or> scanned_before k k')))) \<and>
   (meta_date lib soup = None \<longrightarrow> schema_date lib soup = None \<longrightarrow> scan_dates lib soup = [] \<longrightarrow>
      mark_date lib soup = soup) \<and>
   map (\<lambda>l. (get (here l) date_type, get (here l) parsed_date_attr))
     (text_nodes (mark_date example_lib dated_page)) =
     [(None, None), (Some (Str date_value), Some (Str ''2024-03-01 00:00:00''))]"
  using mark_date_choice[of lib soup] mark_date_nothing[of lib soup] date_scenario_marked
  by blast

theorem date_is_first_scanned_witness:
  "meta_date example_lib dated_page = None \<and>
   schema_date example_lib dated_page = None \<and>
   scan_dates example_lib dated_page \<noteq> [] \<and>
   mark_date_labels example_lib dated_page =
     date_labels example_lib (path (text_nodes dated_page ! 1)) 20240301"
proof -
  let ?iso = "\<lparr>cand_date = 20240301, cand_place = [0, 0, 1, 0], cand_score = 0\<rparr>"
  let ?month = "\<lparr>cand_date = 20240305, cand_place = [0, 0, 0, 0], cand_score = 0\<rparr>"
  have 1: "meta_date example_lib dated_page = None" "schema_date example_lib dated_page = None"
    using date_scenario_meta by simp_all
  have 2: "scan_dates example_lib dated_page \<noteq> []" using date_scenario by simp
  from date_is_first_scanned[of example_lib dated_page] 1 2 obtain k best where
    m: "(k, best) \<in> set (scan_dates example_lib dated_page)" and
    l: "mark_date_labels example_lib dated_page =
          date_labels example_lib (cand_place best) (cand_date best)" and
    o: "\<forall>(k', c) \<in> set (scan_dates example_lib dated_page).
           cand_score c \<le> cand_score best \<and>
           (cand_score c = cand_score best \<longrightarrow> k' = k \<or> scanned_before k k')"
    by blast
  from m have "(k, best) = ((0, 1), ?iso) \<or> (k, best) = ((2, 0), ?month)"
    unfolding date_scenario by simp
  moreover have "(k, best) \<noteq> ((2, 0), ?month)"
  proof
    assume "(k, best) = ((2, 0), ?month)"
    then have k: "k = (2, 0)" and b: "cand_score best = 0" by auto
    from o have "cand_score ?iso = cand_score best \<longrightarrow> (0, 1) = k \<or> scanned_before k (0, 1)"
      unfolding date_scenario by simp
    then show False using k b by (simp add: scanned_before_def)
  qed
  ultimately have "best = ?iso" by blast
  moreover have "path (text_nodes dated_page ! 1) = [0, 0, 1, 0]"
    using date_scenario_paths by (metis One_nat_def length_Cons list.size(3) lessI nth_Cons_0 nth_Cons_Suc nth_map length_map)
  ultimately show ?thesis using 1 2 l by simp
qed

text \<open>
  A date in a script is no candidate: the script string is wrapped, but
  \<^verbatim>\<open>get_text()\<close> of its wrapper is empty. The paragraph is labeled.
\<close>

lemma script_date_ignored:
  "map (\<lambda>l. (path l, get_text (here l))) (text_nodes script_dated_page) =
     [([0, 0, 0, 0], []), ([0, 1, 0, 0], ''March 5, 2024'')] \<and>
   mark_date_labels example_lib script_dated_page =
     date_labels example_lib [0, 1, 0, 0] 20240305"
  by code_simp


section \<open>extract\_article and the faults of its collaborators\<close>

lemma extract_article_cases:
  "extract_article env url =
     (case extract_body env url of
        Inr soup \<Rightarrow> Returns (LabeledSoup soup)
      | Inl e \<Rightarrow> if is_exception e then Returns (ErrorDict (message e) url) else Raises e)"
  by (simp add: extract_article_def)

lemma handle_cloudflare_passes:
  "(\<exists>m. wait_challenge env = Inl (TimeoutException m)) \<or>
   (wait_challenge env = Inr () \<and> (\<forall>e. accept_cookies env = Inl e \<longrightarrow> is_exception e)) \<Longrightarrow>
   handle_cloudflare env = Inr True"
  by (auto simp: handle_cloudflare_def split: sum.splits)

text \<open>
  C9, as stated, fails. When the user interrupts the page load, the claim has the call
  return the error dictionary; the \<^verbatim>\<open>KeyboardInterrupt\<close> is no instance of
  \<^verbatim>\<open>Exception\<close>, passes the handler and leaves \<^verbatim>\<open>extract_article\<close>.
\<close>

theorem extract_article_counterexample:
  "claimed_extraction interrupted_env ''https://news.acme.com/a'' =
     Returns (ErrorDict [] ''https://news.acme.com/a'') \<and>
   extract_article interrupted_env ''https://news.acme.com/a'' = Raises (BaseException [])"
  by (simp add: claimed_extraction_def extract_article_def extract_body_def and_then_def
      interrupted_env_def article_env_def)

text \<open>
  C9, amended. For every URL and every behaviour of the collaborators,
  \<^verbatim>\<open>extract_article\<close> never propagates an instance of \<^verbatim>\<open>Exception\<close>
  and every error dictionary it returns carries the URL of the call. The calls are made
  in the order page load, protection handler, page source, parser, serialisation for the
  original copy, title, date, content, metadata, the marking stages each on the soup the
  stage before has left, the first of them on the addressed parse. The first call that
  raises decides: for an instance \<open>e\<close> of \<^verbatim>\<open>Exception\<close> the result is the
  dictionary with \<^verbatim>\<open>str(e)\<close> and the URL (with the text
  \<^verbatim>\<open>Could not bypass protection\<close> when the wait of the protection handler raised
  an exception other than its timeout); any other exception leaves the function. When
  no call raises, the result is the soup the metadata stage has left.
\<close>

theorem extract_article_contains_exceptions:
  "(\<forall>e. extract_article env url = Raises e \<longrightarrow> \<not> is_exception e) \<and>
   (\<forall>m u. extract_article env url = Returns (ErrorDict m u) \<longrightarrow> u = url) \<and>
   (\<forall>e. driver_get env url = Inl e \<longrightarrow>
      extract_article env url =
        (if is_exception e then Returns (ErrorDict (message e) url) else Raises e)) \<and>
   (driver_get env url = Inr () \<longrightarrow>
     (\<forall>m. wait_challenge env = Inl (OtherException m) \<longrightarrow>
        extract_article env url = Returns (ErrorDict ''Could not bypass protection'' url)) \<and>
     (\<forall>m. wait_challenge env = Inl (BaseException m) \<longrightarrow>
        extract_article env url = Raises (BaseException m)) \<and>
     (\<forall>e. wait_challenge env = Inr () \<longrightarrow> accept_cookies env = Inl e \<longrightarrow> \<not> is_exception e \<longrightarrow>
        extract_article env url = Raises e) \<and>
     ((\<exists>m. wait_challenge env = Inl (TimeoutException m)) \<or>
      (wait_challenge env = Inr () \<and> (\<forall>e. accept_cookies env = Inl e \<longrightarrow> is_exception e)) \<longrightarrow>
       (\<forall>e. page_source env = Inl e \<longrightarrow>
          extract_article env url =
            (if is_exception e then Returns (ErrorDict (message e) url) else Raises e)) \<and>
       (\<forall>source. page_source env = Inr source \<longrightarrow>
         (\<forall>e. parse env source = Inl e \<longrightarrow>
            extract_article env url =
              (if is_exception e then Returns (ErrorDict (message e) url) else Raises e)) \<and>
         (\<forall>parsed. parse env source = Inr parsed \<longrightarrow>
           (\<forall>e. reparse env (address parsed) = Inl e \<longrightarrow>
              extract_article env url =
                (if is_exception e then Returns (ErrorDict (message e) url) else Raises e)) \<and>
           (\<forall>original. reparse env (address parsed) = Inr original \<longrightarrow>
             (\<forall>e. mark_title_stage env (address parsed) = Inl e \<longrightarrow>
                extract_article env url =
                  (if is_exception e then Returns (ErrorDict (message e) url) else Raises e)) \<and>
             (\<forall>soup1. mark_title_stage env (address parsed) = Inr soup1 \<longrightarrow>
               (\<forall>e. mark_date_stage env soup1 = Inl e \<longrightarrow>
                  extract_article env url =
                    (if is_exception e then Returns (ErrorDict (message e) url) else Raises e)) \<and>
               (\<forall>soup2. mark_date_stage env soup1 = Inr soup2 \<longrightarrow>
                 (\<forall>e. mark_content_stage env soup2 = Inl e \<longrightarrow>
                    extract_article env url =
                      (if is_exception e then Returns (ErrorDict (message e) url) else Raises e)) \<and>
                 (\<forall>soup3. mark_content_stage env soup2 = Inr soup3 \<longrightarrow>
                   (\<forall>e. mark_metadata_stage env soup3 = Inl e \<longrightarrow>
                      extract_article env url =
                        (if is_exception e then Returns (ErrorDict (message e) url)
                         else Raises e)) \<and>
                   (\<forall>soup4. mark_metadata_stage env soup3 = Inr soup4 \<longrightarrow>
                      extract_article env url = Returns (LabeledSoup soup4))))))))))"
proof (intro conjI allI impI)
  fix e assume "extract_article env url = Raises e"
  then show "\<not> is_exception e"
    by (auto simp: extract_article_def split: sum.splits if_splits)
next
  fix m u assume "extract_article env url = Returns (ErrorDict m u)"
  then show "u = url"
    by (auto simp: extract_article_def split: sum.splits if_splits)
next
  fix e assume "driver_get env url = Inl e"
  then show "extract_article env url =
        (if is_exception e then Returns (ErrorDict (message e) url) else Raises e)"
    by (simp add: extract_article_def extract_body_def and_then_def)
next
  fix m assume "driver_get env url = Inr ()" "wait_challenge env = Inl (OtherException m)"
  then show "extract_article env url = Returns (ErrorDict ''Could not bypass protection'' url)"
    by (simp add: extract_article_def extract_body_def and_then_def handle_cloudflare_def)
next
  fix m assume "driver_get env url = Inr ()" "wait_challenge env = Inl (BaseException m)"
  then show "extract_article env url = Raises (BaseException m)"
    by (simp add: extract_article_def extract_body_def and_then_def handle_cloudflare_def)
next
  fix e assume "driver_get env url = Inr ()" "wait_challenge env = Inr ()"
    "accept_cookies env = Inl e" "\<not> is_exception e"
  then show "extract_article env url = Raises e"
    by (simp add: extract_article_def extract_body_def and_then_def handle_cloudflare_def)
next
  fix e
  assume "driver_get env url = Inr ()"
    and "(\<exists>m. wait_challenge env = Inl (TimeoutException m)) \<or>
      (wait_challenge env = Inr () \<and> (\<forall>e. accept_cookies env = Inl e \<longrightarrow> is_exception e))"
    and "page_source env = Inl e"
  then show "extract_article env url =
            (if is_exception e then Returns (ErrorDict (message e) url) else Raises e)"
    using handle_cloudflare_passes[of env]
    by (simp add: extract_article_def extract_body_def and_then_def)
next
  fix source e
  assume "driver_get env url = Inr ()"
    and "(\<exists>m. wait_challenge env = Inl (TimeoutException m)) \<or>
      (wait_challenge env = Inr () \<and> (\<forall>e. accept_cookies env = Inl e \<longrightarrow> is_exception e))"
    and "page_source env = Inr source" "parse env source = Inl e"
  then show "extract_article env url =
            (if is_exception e then Returns (ErrorDict (message e) url) else Raises e)"
    using handle_cloudflare_passes[of env]
    by (simp add: extract_article_def extract_body_def and_then_def)
next
  fix source parsed e
  assume "driver_get env url = Inr ()"
    and "(\<exists>m. wait_challenge env = Inl (TimeoutException m)) \<or>
      (wait_challenge env = Inr () \<and> (\<forall>e. accept_cookies env = Inl e \<longrightarrow> is_exception e))"
    and "page_source env = Inr source" "parse env source = Inr parsed"
    and "reparse env (address parsed) = Inl e"
  then show "extract_article env url =
            (if is_exception e then Returns (ErrorDict (message e) url) else Raises e)"
    using handle_cloudflare_passes[of env]
    by (simp add: extract_article_def extract_body_def and_then_def address_def)
next
  fix source parsed original e
  assume "driver_get env url = Inr ()"
    and "(\<exists>m. wait_challenge env = Inl (TimeoutException m)) \<or>
      (wait_challenge env = Inr () \<and> (\<forall>e. accept_cookies env = Inl e \<longrightarrow> is_exception e))"
    and "page_source env = Inr source" "parse env source = Inr parsed"
    and "reparse env (address parsed) = Inr original"
    and "mark_title_stage env (address parsed) = Inl e"
  then show "extract_article env url =
            (if is_exception e then Returns (ErrorDict (message e) url) else Raises e)"
    using handle_cloudflare_passes[of env]
    by (simp add: extract_article_def extract_body_def and_then_def address_def)
next
  fix source parsed original soup1 e
  assume "driver_get env url = Inr ()"
    and "(\<exists>m. wait_challenge env = Inl (TimeoutException m)) \<or>
      (wait_challenge env = Inr () \<and> (\<forall>e. accept_cookies env = Inl e \<longrightarrow> is_exception e))"
    and "page_source env = Inr source" "parse env source = Inr parsed"
    and "reparse env (address parsed) = Inr original"
    and "mark_title_stage env (address parsed) = Inr soup1"
    and "mark_date_stage env soup1 = Inl e"
  then show "extract_article env url =
            (if is_exception e then Returns (ErrorDict (message e) url) else Raises e)"
    using handle_cloudflare_passes[of env]
    by (simp add: extract_article_def extract_body_def and_then_def address_def)
next
  fix source parsed original soup1 soup2 e
  assume "driver_get env url = Inr ()"
    and "(\<exists>m. wait_challenge env = Inl (TimeoutException m)) \<or>
      (wait_challenge env = Inr () \<and> (\<forall>e. accept_cookies env = Inl e \<longrightarrow> is_exception e))"
    and "page_source env = Inr source" "parse env source = Inr parsed"
    and "reparse env (address parsed) = Inr original"
    and "mark_title_stage env (address parsed) = Inr soup1"
    and "mark_date_stage env soup1 = Inr soup2"
    and "mark_content_stage env soup2 = Inl e"
  then show "extract_article env url =
            (if is_exception e then Returns (ErrorDict (message e) url) else Raises e)"
    using handle_cloudflare_passes[of env]
    by (simp add: extract_article_def extract_body_def and_then_def address_def)
next
  fix source parsed original soup1 soup2 soup3 e
  assume "driver_get env url = Inr ()"
    and "(\<exists>m. wait_challenge env = Inl (TimeoutException m)) \<or>
      (wait_challenge env = Inr () \<and> (\<forall>e. accept_cookies env = Inl e \<longrightarrow> is_exception e))"
    and "page_source env = Inr source" "parse env source = Inr parsed"
    and "reparse env (address parsed) = Inr original"
    and "mark_title_stage env (address parsed) = Inr soup1"
    and "mark_date_stage env soup1 = Inr soup2"
    and "mark_content_stage env soup2 = Inr soup3"
    and "mark_metadata_stage env soup3 = Inl e"
  then show "extract_article env url =
            (if is_exception e then Returns (ErrorDict (message e) url) else Raises e)"
    using handle_cloudflare_passes[of env]
    by (simp add: extract_article_def extract_body_def and_then_def address_def)
next
  fix source parsed original soup1 soup2 soup3 soup4
  assume "driver_get env url = Inr ()"
    and "(\<exists>m. wait_challenge env = Inl (TimeoutException m)) \<or>
      (wait_challenge env = Inr () \<and> (\<forall>e. accept_cookies env = Inl e \<longrightarrow> is_exception e))"
    and "page_source env = Inr source" "parse env source = Inr parsed"
    and "reparse env (address parsed) = Inr original"
    and "mark_title_stage env (address parsed) = Inr soup1"
    and "mark_date_stage env soup1 = Inr soup2"
    and "mark_content_stage env soup2 = Inr soup3"
    and "mark_metadata_stage env soup3 = Inr soup4"
  then show "extract_article env url = Returns (LabeledSoup soup4)"
    using handle_cloudflare_passes[of env]
    by (simp add: extract_article_def extract_body_def and_then_def address_def)
qed

theorem extract_article_contains_exceptions_witness:
  "driver_get classed_env ''https://news.acme.com/a'' = Inr () \<and>
   wait_challenge classed_env = Inl (TimeoutException ''Message: '') \<and>
   parse classed_env ''<html>...</html>'' = Inr classed_raw \<and>
   mark_title_stage classed_env (address classed_raw) = Inr classed_page \<and>
   mark_date_stage classed_env classed_page = Inr classed_page \<and>
   mark_content_stage classed_env classed_page = Inl (OtherException none_not_iterable) \<and>
   extract_article classed_env ''https://news.acme.com/a'' =
     Returns (ErrorDict none_not_iterable ''https://news.acme.com/a'')"
proof -
  let ?url = "''https://news.acme.com/a''"
  have 1: "driver_get classed_env ?url = Inr ()"
    by (simp add: classed_env_def article_env_def)
  have 2: "wait_challenge classed_env = Inl (TimeoutException ''Message: '')"
    by (simp add: classed_env_def article_env_def)
  have 3: "page_source classed_env = Inr ''<html>...</html>''"
    by (simp add: classed_env_def article_env_def)
  have 4: "parse classed_env ''<html>...</html>'' = Inr classed_raw"
    by (simp add: classed_env_def article_env_def)
  have 5: "reparse classed_env (address classed_raw) = Inr (address classed_raw)"
    by (simp add: classed_env_def article_env_def)
  have t: "mark_title no_json classed_page = Inr classed_page" by code_simp
  have d: "mark_date example_lib classed_page = classed_page" by code_simp
  have c: "article_content_stage classed_page = Inl (OtherException none_not_iterable)"
    by code_simp
  have 6: "mark_title_stage classed_env (address classed_raw) = Inr classed_page"
    using t by (simp add: classed_env_def article_env_def classed_page_def)
  have 7: "mark_date_stage classed_env classed_page = Inr classed_page"
    using d by (simp add: classed_env_def article_env_def)
  have 8: "mark_content_stage classed_env classed_page = Inl (OtherException none_not_iterable)"
    using c by (simp add: classed_env_def article_env_def)
  from extract_article_contains_exceptions[of classed_env ?url] 1 2 3 4 5 6 7 8
  have "extract_article classed_env ?url =
          (if is_exception (OtherException none_not_iterable)
           then Returns (ErrorDict (message (OtherException none_not_iterable)) ?url)
           else Raises (OtherException none_not_iterable))"
    by blast
  with 1 2 4 6 7 8 show ?thesis by simp
qed

text \<open>
  Four calls. On the article page every stage returns, and the soup that comes back
  carries the title label on the \<^verbatim>\<open>h1\<close>, the date labels on the wrapped text
  of the dated paragraph, and content labels on the wrapped texts before the section
  header. On the page with the numeric headline the title stage raises, on the page
  whose paragraph has a class the content stage does: both calls return the error
  dictionary. The interrupted call raises.
\<close>

lemma extract_article_scenarios:
  "(case extract_article article_env ''https://news.acme.com/a'' of
      Returns (LabeledSoup soup) \<Rightarrow> role_labels soup
    | _ \<Rightarrow> []) =
     [(''h1'', [(''ali-zx9v8k2m4p-title-type'', Str ''qw7x_article_title_p9m2'')]),
      (''ali-tx9v8k2m4p'',
       [(''ali-zx9v8k2m4p-date-type'', Str ''qw7x_article_date_p9m2''),
        (''ali-zx9v8k2m4p-parsed-date'', Str ''2024-03-05 00:00:00''),
        (''ali-zx9v8k2m4p-content-type'', Str ''qw7x_article_content_p9m2''),
        (''ali-zx9v8k2m4p-content-tag'', Str ''ali-tx9v8k2m4p'')]),
      (''ali-tx9v8k2m4p'',
       [(''ali-zx9v8k2m4p-content-type'', Str ''qw7x_article_content_p9m2''),
        (''ali-zx9v8k2m4p-content-tag'', Str ''ali-tx9v8k2m4p'')])] \<and>
   extract_article numeric_env ''https://news.acme.com/a'' =
     Returns (ErrorDict (no_len ''int'') ''https://news.acme.com/a'') \<and>
   extract_article classed_env ''https://news.acme.com/a'' =
     Returns (ErrorDict none_not_iterable ''https://news.acme.com/a'') \<and>
   extract_article interrupted_env ''https://news.acme.com/a'' = Raises (BaseException [])"
  by code_simp

end
